theory Spec2Isabelle
  imports Main
begin

section \<open>Strings and numbers of the host language\<close>

text \<open>
  A string is a list of code units. The model covers the code units below 256
  (ISO 8859-1), one \<open>char\<close> each, so \<open>length\<close> is the \<open>.length\<close> of the source.
  \<open>toLowerCase\<close> maps A..Z and the accented capitals 192..222 (without the
  multiplication sign 215) to the letter 32 places higher and leaves every other
  code unit alone.
\<close>

definition isUpperCode :: "nat \<Rightarrow> bool" where
  "isUpperCode n = ((65 \<le> n \<and> n \<le> 90) \<or> (192 \<le> n \<and> n \<le> 222 \<and> n \<noteq> 215))"

definition isLowerCode :: "nat \<Rightarrow> bool" where
  "isLowerCode n = ((97 \<le> n \<and> n \<le> 122) \<or> (224 \<le> n \<and> n \<le> 254 \<and> n \<noteq> 247))"

definition toLowerChar :: "char \<Rightarrow> char" where
  "toLowerChar c = (if isUpperCode (of_char c) then char_of ((of_char c :: nat) + 32) else c)"

definition toLowerCase :: "string \<Rightarrow> string" where
  "toLowerCase s = map toLowerChar s"

text \<open>\<open>s.startsWith(p)\<close> and \<open>s.includes(p)\<close> (\<open>str_includes\<close>: the plain name is reserved).\<close>

fun startsWith :: "string \<Rightarrow> string \<Rightarrow> bool" where
  "startsWith s [] = True"
| "startsWith [] (p # ps) = False"
| "startsWith (c # cs) (p # ps) = (if c = p then startsWith cs ps else False)"

fun str_includes :: "string \<Rightarrow> string \<Rightarrow> bool" where
  "str_includes [] p = (p = [])"
| "str_includes (c # cs) p = (if startsWith (c # cs) p then True else str_includes cs p)"

text \<open>
  The text a template literal puts for an integer number: decimal digits, with a
  minus sign below zero.
\<close>

definition digitChar :: "nat \<Rightarrow> char" where
  "digitChar d = char_of (48 + d)"

function showNat :: "nat \<Rightarrow> string" where
  "showNat n = (if n < 10 then [digitChar n] else showNat (n div 10) @ [digitChar (n mod 10)])"
  by pat_completeness auto
termination
  by (relation "measure id") auto

declare showNat.simps [simp del]

definition showInt :: "int \<Rightarrow> string" where
  "showInt i = (if i < 0 then CHR ''-'' # showNat (nat (- i)) else showNat (nat i))"

text \<open>\<open>xs.join(sep)\<close> on a list of strings.\<close>

fun join :: "string \<Rightarrow> string list \<Rightarrow> string" where
  "join sep [] = []"
| "join sep [x] = x"
| "join sep (x # y # ys) = x @ sep @ join sep (y # ys)"

text \<open>
  A number that may be absent (\<open>salaryMin?: number\<close>) is an \<open>int option\<close>. In a
  condition it counts as true when it is present and not zero.
\<close>

definition truthy :: "int option \<Rightarrow> bool" where
  "truthy v = (case v of None \<Rightarrow> False | Some n \<Rightarrow> n \<noteq> 0)"

text \<open>\<open>d || ""\<close> on a string that may be absent.\<close>

definition orEmpty :: "string option \<Rightarrow> string" where
  "orEmpty d = (case d of None \<Rightarrow> [] | Some s \<Rightarrow> s)"

subsection \<open>Regular expressions\<close>

text \<open>
  The patterns of the verifier are built from literal characters, the classes
  \<open>\d\<close> and \<open>.\<close>, repetition of a class, sequence and alternative; all carry the flag
  \<open>i\<close> and none the flag \<open>g\<close>, so \<open>test\<close> has no state. A literal matches a code unit
  with the same canonical (upper-case) form. The matcher takes a continuation for
  the rest of the pattern, and \<open>rx_test\<close> tries every start position.
\<close>

definition canonicalize :: "char \<Rightarrow> char" where
  "canonicalize c = (if isLowerCode (of_char c) then char_of ((of_char c :: nat) - 32) else c)"

datatype cls = Digit | AnyChar

fun inCls :: "cls \<Rightarrow> char \<Rightarrow> bool" where
  "inCls Digit c = (48 \<le> (of_char c :: nat) \<and> (of_char c :: nat) \<le> 57)"
| "inCls AnyChar c = ((of_char c :: nat) \<noteq> 10 \<and> (of_char c :: nat) \<noteq> 13)"

datatype rx = Eps | Lit char | Cls cls | Star cls | Seq rx rx | Alt rx rx

fun rxm :: "rx \<Rightarrow> string \<Rightarrow> (string \<Rightarrow> bool) \<Rightarrow> bool" where
  "rxm Eps s k = k s"
| "rxm (Lit c) [] k = False"
| "rxm (Lit c) (x # xs) k = (if canonicalize x = canonicalize c then k xs else False)"
| "rxm (Cls C) [] k = False"
| "rxm (Cls C) (x # xs) k = (if inCls C x then k xs else False)"
| "rxm (Star C) [] k = k []"
| "rxm (Star C) (x # xs) k =
     (if inCls C x then (if rxm (Star C) xs k then True else k (x # xs)) else k (x # xs))"
| "rxm (Seq a b) s k = rxm a s (\<lambda>t. rxm b t k)"
| "rxm (Alt a b) s k = (if rxm a s k then True else rxm b s k)"

fun rx_test :: "rx \<Rightarrow> string \<Rightarrow> bool" where
  "rx_test r [] = rxm r [] (\<lambda>t. True)"
| "rx_test r (c # cs) = (if rxm r (c # cs) (\<lambda>t. True) then True else rx_test r cs)"

fun lit :: "string \<Rightarrow> rx" where
  "lit [] = Eps"
| "lit (c # cs) = Seq (Lit c) (lit cs)"

section \<open>Scraper\<close>

datatype LocationType = REMOTE | HYBRID | ONSITE

record ScrapedJob =
  title :: string
  company :: string
  location :: string
  locationType :: LocationType
  salaryMin :: "int option"
  salaryMax :: "int option"
  applyUrl :: string
  sourceUrl :: string
  source :: string
  description :: "string option"

text \<open>
  The aggregator filters the concatenated postings with a set of keys already
  seen; the key is the lower-cased company, a hyphen, and the lower-cased title.
\<close>

definition jobKey :: "ScrapedJob \<Rightarrow> string" where
  "jobKey job = toLowerCase (company job) @ ''-'' @ toLowerCase (title job)"

fun uniqueFilter :: "string set \<Rightarrow> ScrapedJob list \<Rightarrow> ScrapedJob list" where
  "uniqueFilter seen [] = []"
| "uniqueFilter seen (job # jobs) =
     (let key = jobKey job
      in if key \<in> seen then uniqueFilter seen jobs
         else job # uniqueFilter (insert key seen) jobs)"

section \<open>What the pipeline is run against\<close>

text \<open>
  Everything outside the program is a field of one environment record: what each
  source adapter returned, what an HTTP request to a URL gives, the host name the
  URL parser finds, what the two model providers answer, successive readings of
  the clock, and the faults of the storage service. An HTTP request either gives a
  response with a status or throws (abort after the timeout, network error).
\<close>

datatype Method = HEAD | GET

datatype FetchOutcome = Response nat | FetchThrew

datatype Recommendation = APPROVE | REVIEW | REJECT

record AIAnalysisResult =
  legitimacyScore :: int
  isLikelyGhostJob :: bool
  concerns :: "string list"
  positiveSignals :: "string list"
  recommendation :: Recommendation
  reasoning :: string

datatype VerificationStatus = VERIFIED | EXPIRED | BROKEN_LINK | NOT_HIRING | PENDING

text \<open>
  The columns of table \<open>jobs\<close> that the program writes or reads. A stored row is
  the key \<open>id\<close>, which the store assigns, with these columns; the columns
  \<open>created_at\<close> and \<open>updated_at\<close> are filled by the store and never read here.
  A time is a number of milliseconds.
\<close>

record JobInsert =
  row_title :: string
  row_company :: string
  row_location :: string
  location_type :: LocationType
  salary_min :: "int option"
  salary_max :: "int option"
  apply_url :: string
  source_url :: string
  row_source :: "string option"
  verification_status :: VerificationStatus
  last_verified_at :: "int option"
  verification_notes :: "string option"

type_synonym JobRow = "nat \<times> JobInsert"

text \<open>
  A call of the storage client can throw, or return with its \<open>error\<close> field set
  and no data.
\<close>

datatype DbFault = Threw string | ErrorResult string

record Env =
  remoteOK :: "ScrapedJob list"
  remotive :: "ScrapedJob list"
  arbeitnow :: "ScrapedJob list"
  himalayas :: "ScrapedJob list"
  jobicy :: "ScrapedJob list"
  weWorkRemotely :: "ScrapedJob list"
  greenhouseAll :: "ScrapedJob list"
  leverAll :: "ScrapedJob list"
  scrapeFault :: "string option"
  fetch :: "Method \<Rightarrow> string \<Rightarrow> FetchOutcome"
  hostname :: "string \<Rightarrow> string option"
  verifyFault :: "string option"
  openAI :: "ScrapedJob \<Rightarrow> AIAnalysisResult option"
  anthropic :: "ScrapedJob \<Rightarrow> AIAnalysisResult option"
  analyzeFault :: "string option"
  clock :: "nat \<Rightarrow> int"
  toISOString :: "int \<Rightarrow> string"
  existingSelectFault :: "DbFault option"
  insertFault :: "JobInsert \<Rightarrow> DbFault option"
  staleSelectFault :: "DbFault option"

text \<open>
  The state that a run changes: the rows of the table, and how many times the
  clock has been read.
\<close>

record World =
  db :: "JobRow list"
  ticks :: nat

definition readClock :: "Env \<Rightarrow> World \<Rightarrow> int \<times> World" where
  "readClock env w = (clock env (ticks w), w\<lparr>ticks := Suc (ticks w)\<rparr>)"

section \<open>Verifier\<close>

record VerificationResult =
  isValid :: bool
  urlStatus :: "nat option"
  urlAccessible :: bool
  companyDomainValid :: bool
  hasRedFlags :: bool
  redFlags :: "string list"
  verdictNotes :: string

definition digits1 :: rx where
  "digits1 = Seq (Cls Digit) (Star Digit)"

definition digits3 :: rx where
  "digits3 = Seq (Cls Digit) (Seq (Cls Digit) (Seq (Cls Digit) (Star Digit)))"

definition dotStar :: rx where
  "dotStar = Star AnyChar"

definition RED_FLAG_PATTERNS :: "(rx \<times> string) list" where
  "RED_FLAG_PATTERNS =
    [(lit ''urgently hiring'', ''Urgently hiring language''),
     (lit ''immediate start'', ''Immediate start pressure''),
     (lit ''no experience needed'', ''No experience needed for tech role''),
     (Seq (lit ''work from home $'') (Seq digits1 (lit ''k'')),
        ''Work from home with unrealistic salary claims''),
     (Seq (lit ''$'') (Seq digits3 (lit ''/day'')), ''Unrealistic daily rate''),
     (Seq (lit ''$'') (Seq digits3 (lit ''/hour'')),
        ''Unrealistic hourly rate (>$200/hr for entry level)''),
     (lit ''guaranteed income'', ''Guaranteed income claims''),
     (lit ''be your own boss'', ''MLM-style language''),
     (lit ''unlimited earning'', ''Unlimited earning claims''),
     (Seq (lit ''crypto'') (Seq dotStar (lit ''payment'')), ''Crypto payment offers''),
     (Alt (lit ''training fee'') (lit ''pay for training''), ''Requires training fee''),
     (Alt (Seq (lit ''send'') (Seq dotStar (lit ''money''))) (lit ''wire transfer''),
        ''Requests money transfer''),
     (Seq (lit ''personal'') (Seq dotStar (Seq (lit ''bank'') (Seq dotStar (lit ''account'')))),
        ''Requests bank account info''),
     (Alt (lit ''ssn'') (lit ''social security''), ''Requests SSN upfront'')]"

definition TRUSTED_DOMAINS :: "string list" where
  "TRUSTED_DOMAINS =
    [''greenhouse.io'', ''lever.co'', ''ashbyhq.com'', ''workday.com'',
     ''smartrecruiters.com'', ''jobvite.com'', ''icims.com'', ''taleo.net'',
     ''myworkdayjobs.com'', ''careers-page.com'', ''breezy.hr'', ''recruitee.com'',
     ''bamboohr.com'', ''workable.com'', ''jazz.co'', ''applytojob.com'']"

record UrlCheck =
  accessible :: bool
  status :: "nat option"

definition checkUrlAccessibility :: "Env \<Rightarrow> string \<Rightarrow> UrlCheck" where
  "checkUrlAccessibility env url =
     (case fetch env HEAD url of
        Response st \<Rightarrow> \<lparr>accessible = (200 \<le> st \<and> st < 400), status = Some st\<rparr>
      | FetchThrew \<Rightarrow>
          (case fetch env GET url of
             Response st \<Rightarrow> \<lparr>accessible = (200 \<le> st \<and> st < 400), status = Some st\<rparr>
           | FetchThrew \<Rightarrow> \<lparr>accessible = False, status = None\<rparr>))"

definition extractDomain :: "Env \<Rightarrow> string \<Rightarrow> string option" where
  "extractDomain env url = hostname env url"

text \<open>\<open>domain.replace(/^www\./, "")\<close>.\<close>

definition stripWww :: "string \<Rightarrow> string" where
  "stripWww domain = (if startsWith domain ''www.'' then drop 4 domain else domain)"

definition checkCompanyDomain :: "Env \<Rightarrow> string \<Rightarrow> bool" where
  "checkCompanyDomain env url =
     (case extractDomain env url of
        None \<Rightarrow> False
      | Some domain \<Rightarrow>
          if domain = [] then False
          else if list_ex (\<lambda>trusted. str_includes domain trusted) TRUSTED_DOMAINS then True
          else accessible (checkUrlAccessibility env (''https://'' @ stripWww domain)))"

definition detectRedFlags :: "ScrapedJob \<Rightarrow> string list" where
  "detectRedFlags job =
     (let textToCheck = title job @ '' '' @ orEmpty (description job);
          flags1 = map snd (filter (\<lambda>(pattern, flag). rx_test pattern textToCheck)
                      RED_FLAG_PATTERNS);
          flags2 = (if (case salaryMin job of None \<Rightarrow> False
                        | Some lo \<Rightarrow> lo \<noteq> 0 \<and> lo > 200000)
                    then flags1 @ [''Unrealistic entry-level salary (>$200k)''] else flags1)
      in if length (company job) < 3 \<or> toLowerCase (company job) = ''company''
            \<or> toLowerCase (company job) = ''confidential''
         then flags2 @ [''Vague or confidential company name''] else flags2)"

definition verifyJob :: "Env \<Rightarrow> ScrapedJob \<Rightarrow> VerificationResult" where
  "verifyJob env job =
     (let chk = checkUrlAccessibility env (applyUrl job);
          domainValid = checkCompanyDomain env (applyUrl job);
          flags = detectRedFlags job;
          hasFlags = (length flags > 0);
          valid = (accessible chk \<and> domainValid \<and> \<not> hasFlags);
          statusText = (case status chk of None \<Rightarrow> ''failed''
                        | Some st \<Rightarrow> if st = 0 then ''failed'' else showNat st);
          notesText = join ''; ''
            [if accessible chk
             then ''URL accessible ('' @ (case status chk of None \<Rightarrow> ''null''
                                          | Some st \<Rightarrow> showNat st) @ '')''
             else ''URL not accessible ('' @ statusText @ '')'',
             if domainValid then ''Company domain valid'' else ''Company domain invalid'',
             if hasFlags then ''Red flags: '' @ join '', '' flags else ''No red flags'']
      in \<lparr>isValid = valid, urlStatus = status chk, urlAccessible = accessible chk,
          companyDomainValid = domainValid, hasRedFlags = hasFlags, redFlags = flags,
          verdictNotes = notesText\<rparr>)"

text \<open>
  \<open>verifyJobs\<close> works through the postings in batches with a pause between them
  and stores each result under its posting. The batches change only the timing.
  The program handles an exception that escapes the call; \<open>verifyFault\<close> says
  whether one does.
\<close>

definition verifyJobs ::
  "Env \<Rightarrow> ScrapedJob list \<Rightarrow> string + (ScrapedJob \<rightharpoonup> VerificationResult)" where
  "verifyJobs env jobs =
     (case verifyFault env of
        Some e \<Rightarrow> Inl e
      | None \<Rightarrow> Inr (map_of (map (\<lambda>job. (job, verifyJob env job)) jobs)))"

section \<open>Legitimacy checker\<close>

text \<open>
  The rule engine keeps a score and two lists; \<open>concern\<close> and \<open>positive\<close> are its
  two kinds of step (\<open>push\<close> on a list and \<open>score -= n\<close> or \<open>score += n\<close>).
\<close>

type_synonym RuleState = "int \<times> string list \<times> string list"

fun concern :: "string \<Rightarrow> int \<Rightarrow> RuleState \<Rightarrow> RuleState" where
  "concern msg n (score, cs, ps) = (score - n, cs @ [msg], ps)"

fun positive :: "string \<Rightarrow> int \<Rightarrow> RuleState \<Rightarrow> RuleState" where
  "positive msg n (score, cs, ps) = (score + n, cs, ps @ [msg])"

definition applyIf :: "bool \<Rightarrow> (RuleState \<Rightarrow> RuleState) \<Rightarrow> RuleState \<Rightarrow> RuleState" where
  "applyIf c f st = (if c then f st else st)"

definition ruleSteps :: "ScrapedJob \<Rightarrow> RuleState" where
  "ruleSteps job =
     (let text = toLowerCase (title job @ '' '' @ orEmpty (description job));
          st = (70, [], []);
          st = applyIf (str_includes text ''urgently'' \<or> str_includes text ''immediate'')
                 (concern ''Urgency language detected'' 15) st;
          st = applyIf (str_includes text ''no experience'' \<and> str_includes text ''senior'')
                 (concern ''Contradictory experience requirements'' 20) st;
          st = applyIf (length (company job) < 3 \<or> toLowerCase (company job) = ''confidential'')
                 (concern ''Company name not disclosed'' 15) st;
          st = applyIf (orEmpty (description job) = [] \<or> length (orEmpty (description job)) < 100)
                 (concern ''Very short or missing description'' 10) st;
          st = applyIf (str_includes text ''guaranteed'' \<or> str_includes text ''unlimited earning'')
                 (concern ''Too-good-to-be-true claims'' 25) st;
          st = applyIf (case (salaryMin job, salaryMax job) of
                          (Some lo, Some hi) \<Rightarrow> lo \<noteq> 0 \<and> hi \<noteq> 0 \<and> hi > lo
                        | _ \<Rightarrow> False)
                 (positive ''Salary range provided'' 10) st;
          st = applyIf (str_includes text ''team'' \<or> str_includes text ''report to''
                     \<or> str_includes text ''manager'')
                 (positive ''Team structure mentioned'' 5) st;
          st = applyIf (str_includes (applyUrl job) ''greenhouse''
                     \<or> str_includes (applyUrl job) ''lever''
                     \<or> str_includes (applyUrl job) ''workday'')
                 (positive ''Uses legitimate ATS platform'' 10) st
      in applyIf (orEmpty (description job) \<noteq> [] \<and> length (orEmpty (description job)) > 500)
           (positive ''Detailed job description'' 5) st)"

definition analyzeWithRules :: "ScrapedJob \<Rightarrow> AIAnalysisResult" where
  "analyzeWithRules job =
     (case ruleSteps job of
        (raw, cs, ps) \<Rightarrow>
          (let score = max 0 (min 100 raw)
           in \<lparr>legitimacyScore = score,
               isLikelyGhostJob = (score < 50),
               concerns = cs,
               positiveSignals = ps,
               recommendation =
                 (if score \<ge> 70 then APPROVE else if score \<ge> 50 then REVIEW else REJECT),
               reasoning = ''Rule-based analysis score: '' @ showInt score @ ''/100. ''
                 @ showNat (length cs) @ '' concerns, '' @ showNat (length ps)
                 @ '' positive signals.''\<rparr>))"

text \<open>
  The two provider calls return an assessment or nothing (no key, an error
  status, an answer that does not parse); they are fields of the environment.
\<close>

definition analyzeJobWithAI :: "Env \<Rightarrow> ScrapedJob \<Rightarrow> AIAnalysisResult" where
  "analyzeJobWithAI env job =
     (case openAI env job of
        Some result \<Rightarrow> result
      | None \<Rightarrow>
          (case anthropic env job of
             Some result \<Rightarrow> result
           | None \<Rightarrow> analyzeWithRules job))"

definition analyzeJobs ::
  "Env \<Rightarrow> ScrapedJob list \<Rightarrow> string + (ScrapedJob \<rightharpoonup> AIAnalysisResult)" where
  "analyzeJobs env jobs =
     (case analyzeFault env of
        Some e \<Rightarrow> Inl e
      | None \<Rightarrow> Inr (map_of (map (\<lambda>job. (job, analyzeJobWithAI env job)) jobs)))"

section \<open>Aggregator\<close>

text \<open>
  \<open>scrapeAllSources\<close> awaits the eight adapters together, concatenates their
  results in the fixed order of the source and removes duplicates. Each adapter
  catches its own errors; \<open>scrapeFault\<close> is an exception that escapes all the same.
\<close>

definition allJobs :: "Env \<Rightarrow> ScrapedJob list" where
  "allJobs env = remoteOK env @ remotive env @ arbeitnow env @ himalayas env @
                 jobicy env @ weWorkRemotely env @ greenhouseAll env @ leverAll env"

definition scrapeAllSources :: "Env \<Rightarrow> string + ScrapedJob list" where
  "scrapeAllSources env =
     (case scrapeFault env of
        Some e \<Rightarrow> Inl e
      | None \<Rightarrow> Inr (uniqueFilter {} (allJobs env)))"

section \<open>Storage port\<close>

text \<open>
  The table is a list of rows. \<open>insert\<close> appends the new row under a key not yet in
  use, unless the environment makes the call fail; \<open>select\<close> returns the rows that
  satisfy the filters, unless it fails; \<open>update ... eq id\<close> changes the rows with
  that key. The program never reads what an update returns, so an update has no
  failure that the program could see.
\<close>

definition freshId :: "JobRow list \<Rightarrow> nat" where
  "freshId rows = Suc (fold max (map fst rows) 0)"

definition dbInsert :: "Env \<Rightarrow> JobInsert \<Rightarrow> World \<Rightarrow> DbFault option \<times> World" where
  "dbInsert env payload w =
     (case insertFault env payload of
        Some f \<Rightarrow> (Some f, w)
      | None \<Rightarrow> (None, w\<lparr>db := db w @ [(freshId (db w), payload)]\<rparr>))"

definition dbSelect :: "DbFault option \<Rightarrow> (JobRow \<Rightarrow> bool) \<Rightarrow> World \<Rightarrow> DbFault + JobRow list" where
  "dbSelect fault cond w =
     (case fault of Some f \<Rightarrow> Inl f | None \<Rightarrow> Inr (filter cond (db w)))"

definition dbUpdate :: "nat \<Rightarrow> (JobInsert \<Rightarrow> JobInsert) \<Rightarrow> World \<Rightarrow> World" where
  "dbUpdate i f w = w\<lparr>db := map (\<lambda>(k, r). if k = i then (k, f r) else (k, r)) (db w)\<rparr>"

section \<open>Pipeline\<close>

record PipelineResult =
  scrapedCount :: int
  verifiedCount :: int
  addedCount :: int
  skippedCount :: int
  failedCount :: int
  duration :: int
  errors :: "string list"

record JobWithAnalysis =
  job :: ScrapedJob
  verification :: "VerificationResult option"
  aiAnalysis :: AIAnalysisResult

definition defaultAnalysis :: AIAnalysisResult where
  "defaultAnalysis =
     \<lparr>legitimacyScore = 70, isLikelyGhostJob = False, concerns = [], positiveSignals = [],
      recommendation = REVIEW, reasoning = ''No AI analysis available''\<rparr>"

text \<open>Step 2: the URLs of the stored rows, when the read gives them.\<close>

definition loadExistingUrls :: "Env \<Rightarrow> World \<Rightarrow> string list \<Rightarrow> string set \<times> string list" where
  "loadExistingUrls env w errs =
     (case dbSelect (existingSelectFault env) (\<lambda>r. True) w of
        Inl (Threw e) \<Rightarrow> ({}, errs @ [''Database check error: '' @ e])
      | Inl (ErrorResult e) \<Rightarrow> ({}, errs)
      | Inr existingJobs \<Rightarrow>
          (fold (\<lambda>j urls. insert (source_url (snd j)) (insert (apply_url (snd j)) urls))
             existingJobs {}, errs))"

definition isNewJob :: "string set \<Rightarrow> ScrapedJob \<Rightarrow> bool" where
  "isNewJob existingUrls j = (applyUrl j \<notin> existingUrls \<and> sourceUrl j \<notin> existingUrls)"

text \<open>Step 3: the filter on the verification results.\<close>

definition passedVerification :: "(ScrapedJob \<rightharpoonup> VerificationResult) \<Rightarrow> ScrapedJob \<Rightarrow> bool" where
  "passedVerification verificationResults j =
     (case verificationResults j of
        None \<Rightarrow> False
      | Some result \<Rightarrow> urlAccessible result \<and> \<not> hasRedFlags result)"

text \<open>Step 4: each valid posting with its results, and the filter on the assessment.\<close>

definition combine ::
  "(ScrapedJob \<rightharpoonup> VerificationResult) \<Rightarrow> (ScrapedJob \<rightharpoonup> AIAnalysisResult) \<Rightarrow>
   ScrapedJob \<Rightarrow> JobWithAnalysis" where
  "combine verificationResults aiResults j =
     \<lparr>job = j, verification = verificationResults j,
      aiAnalysis = (case aiResults j of Some a \<Rightarrow> a | None \<Rightarrow> defaultAnalysis)\<rparr>"

definition isApproved :: "JobWithAnalysis \<Rightarrow> bool" where
  "isApproved item =
     (recommendation (aiAnalysis item) = APPROVE \<or>
      (recommendation (aiAnalysis item) = REVIEW \<and> legitimacyScore (aiAnalysis item) \<ge> 60))"

text \<open>
  Step 5: one turn of the insertion loop. The row is built first (reading the
  clock for an approved posting), then passed to the store. A posting without a
  verification result would make the template for the notes throw inside the
  \<open>try\<close> block.
\<close>

definition insertRow :: "ScrapedJob \<Rightarrow> AIAnalysisResult \<Rightarrow> VerificationResult \<Rightarrow> int option \<Rightarrow> JobInsert" where
  "insertRow j a v stamp =
     \<lparr>row_title = title j,
      row_company = company j,
      row_location = location j,
      location_type = locationType j,
      salary_min = (if truthy (salaryMin j) then salaryMin j else None),
      salary_max = (if truthy (salaryMax j) then salaryMax j else None),
      apply_url = applyUrl j,
      source_url = sourceUrl j,
      row_source = Some (source j),
      verification_status = (if recommendation a = APPROVE then VERIFIED else PENDING),
      last_verified_at = stamp,
      verification_notes = Some (''Auto-verified. Score: '' @ showInt (legitimacyScore a)
         @ ''/100. '' @ verdictNotes v)\<rparr>"

definition insertOne ::
  "Env \<Rightarrow> JobWithAnalysis \<Rightarrow> World \<times> int \<times> string list \<Rightarrow> World \<times> int \<times> string list" where
  "insertOne env item st =
     (case st of (w, added, errs) \<Rightarrow>
        (let (stamp, w1) =
               (if recommendation (aiAnalysis item) = APPROVE
                then (case readClock env w of (t, w') \<Rightarrow> (Some t, w'))
                else (None, w))
         in case verification item of
              None \<Rightarrow>
                (w1, added, errs @ [''Insert error for '' @ title (job item)
                   @ '': TypeError: Cannot read properties of undefined (reading 'notes')''])
            | Some v \<Rightarrow>
                (case dbInsert env (insertRow (job item) (aiAnalysis item) v stamp) w1 of
                   (Some (ErrorResult msg), w2) \<Rightarrow>
                     (w2, added, errs @ [''Insert error for '' @ title (job item) @ '': '' @ msg])
                 | (Some (Threw e), w2) \<Rightarrow>
                     (w2, added, errs @ [''Insert error for '' @ title (job item) @ '': '' @ e])
                 | (None, w2) \<Rightarrow> (w2, added + 1, errs))))"

definition insertApproved ::
  "Env \<Rightarrow> JobWithAnalysis list \<Rightarrow> World \<times> int \<times> string list \<Rightarrow> World \<times> int \<times> string list" where
  "insertApproved env approvedJobs st = fold (insertOne env) approvedJobs st"

definition earlyResult ::
  "Env \<Rightarrow> World \<Rightarrow> int \<Rightarrow> int \<Rightarrow> int \<Rightarrow> int \<Rightarrow> string list \<Rightarrow> PipelineResult \<times> World" where
  "earlyResult env w startTime scraped skipped failed errs =
     (case readClock env w of
        (t, w') \<Rightarrow>
          (\<lparr>scrapedCount = scraped, verifiedCount = 0, addedCount = 0, skippedCount = skipped,
            failedCount = failed, duration = t - startTime, errors = errs\<rparr>, w'))"

definition runPipeline :: "Env \<Rightarrow> World \<Rightarrow> PipelineResult \<times> World" where
  "runPipeline env w0 =
     (case readClock env w0 of (startTime, w1) \<Rightarrow>
      (let (jobs, errs1) = (case scrapeAllSources env of
                              Inl e \<Rightarrow> ([], [''Scraping error: '' @ e])
                            | Inr scraped \<Rightarrow> (scraped, []))
       in if length jobs = 0 then earlyResult env w1 startTime 0 0 0 errs1
          else
       (let (existingUrls, errs2) = loadExistingUrls env w1 errs1;
            newJobs = filter (isNewJob existingUrls) jobs;
            skipped = int (length jobs) - int (length newJobs)
        in if length newJobs = 0
           then earlyResult env w1 startTime (int (length jobs)) skipped 0 errs2
           else
       (let (verificationResults, errs3) =
              (case verifyJobs env newJobs of
                 Inl e \<Rightarrow> (Map.empty, errs2 @ [''Verification error: '' @ e])
               | Inr results \<Rightarrow> (results, errs2));
            validJobs = filter (passedVerification verificationResults) newJobs
        in if length validJobs = 0
           then earlyResult env w1 startTime (int (length jobs)) skipped
                  (int (length newJobs)) errs3
           else
       (let (aiResults, errs4) =
              (case analyzeJobs env validJobs of
                 Inl e \<Rightarrow> (Map.empty, errs3 @ [''AI analysis error: '' @ e])
               | Inr results \<Rightarrow> (results, errs3));
            approvedJobs = filter isApproved
                             (map (combine verificationResults aiResults) validJobs)
        in case insertApproved env approvedJobs (w1, 0, errs4) of
             (w2, added, errs5) \<Rightarrow>
               (case readClock env w2 of
                  (t, w3) \<Rightarrow>
                    (\<lparr>scrapedCount = int (length jobs),
                      verifiedCount = int (length validJobs),
                      addedCount = added,
                      skippedCount = skipped,
                      failedCount = int (length newJobs) - int (length validJobs)
                                    + (int (length approvedJobs) - added),
                      duration = t - startTime,
                      errors = errs5\<rparr>, w3)))))))"

section \<open>Re-verification\<close>

record ReverifyResult =
  checked :: int
  expired :: int
  fetchErrors :: "string list"

definition isStale :: "int \<Rightarrow> JobRow \<Rightarrow> bool" where
  "isStale twentyFourHoursAgo r =
     (verification_status (snd r) = VERIFIED \<and>
      (case last_verified_at (snd r) of None \<Rightarrow> False | Some t \<Rightarrow> t < twentyFourHoursAgo))"

definition markBroken :: "string \<Rightarrow> JobInsert \<Rightarrow> JobInsert" where
  "markBroken note r = r\<lparr>verification_status := BROKEN_LINK, verification_notes := Some note\<rparr>"

definition markFresh :: "int \<Rightarrow> string \<Rightarrow> JobInsert \<Rightarrow> JobInsert" where
  "markFresh t note r = r\<lparr>last_verified_at := Some t, verification_notes := Some note\<rparr>"

definition reverifyOne :: "Env \<Rightarrow> JobRow \<Rightarrow> World \<times> int \<Rightarrow> World \<times> int" where
  "reverifyOne env j st =
     (case st of (w, n) \<Rightarrow>
        (case fetch env HEAD (apply_url (snd j)) of
           Response code \<Rightarrow>
             if 200 \<le> code \<and> code < 400
             then (case readClock env w of (t1, w1) \<Rightarrow>
                   case readClock env w1 of (t2, w2) \<Rightarrow>
                     (dbUpdate (fst j)
                        (markFresh t1 (''Re-verified at '' @ toISOString env t2)) w2, n))
             else (case readClock env w of (t, w1) \<Rightarrow>
                     (dbUpdate (fst j)
                        (markBroken (''Link broken (HTTP '' @ showNat code @ '') at ''
                           @ toISOString env t)) w1, n + 1))
         | FetchThrew \<Rightarrow>
             (case readClock env w of (t, w1) \<Rightarrow>
                (dbUpdate (fst j)
                   (markBroken (''Link unreachable at '' @ toISOString env t)) w1, n + 1))))"

text \<open>
  The read of the stale rows is not inside a \<open>try\<close> block: when the call throws,
  so does \<open>reverifyExistingJobs\<close> (the left result).
\<close>

definition reverifyExistingJobs :: "Env \<Rightarrow> World \<Rightarrow> (string + ReverifyResult) \<times> World" where
  "reverifyExistingJobs env w0 =
     (case readClock env w0 of (now, w1) \<Rightarrow>
      (let twentyFourHoursAgo = now - 24 * 60 * 60 * 1000
       in case dbSelect (staleSelectFault env) (isStale twentyFourHoursAgo) w1 of
            Inl (Threw e) \<Rightarrow> (Inl e, w1)
          | Inl (ErrorResult e) \<Rightarrow>
              (Inr \<lparr>checked = 0, expired = 0, fetchErrors = [''Fetch error: '' @ e]\<rparr>, w1)
          | Inr jobsToCheck \<Rightarrow>
              if length jobsToCheck = 0
              then (Inr \<lparr>checked = 0, expired = 0, fetchErrors = []\<rparr>, w1)
              else (case fold (reverifyOne env) jobsToCheck (w1, 0) of
                      (w2, n) \<Rightarrow>
                        (Inr \<lparr>checked = int (length jobsToCheck), expired = n,
                              fetchErrors = []\<rparr>, w2))))"

section \<open>Public listing\<close>

text \<open>
  The query of the home page: rows with status \<open>VERIFIED\<close> whose
  \<open>last_verified_at\<close> is greater than or equal to the time 48 hours before now,
  newest first, at most ten. A row without a timestamp satisfies no comparison.
  \<open>homePageJobs\<close> is the constant \<open>jobs\<close> of the page, the data of that query; the
  page renders a card for the first five of them only, \<open>jobs.slice(0, 5)\<close>, which
  is \<open>homePageCards\<close>. The count on the home page issues the query without order
  or limit, and the jobs page issues it with a limit of 10000.
\<close>

definition publicListingWhere :: "int \<Rightarrow> JobRow \<Rightarrow> bool" where
  "publicListingWhere fortyEightHoursAgo r =
     (verification_status (snd r) = VERIFIED \<and>
      (case last_verified_at (snd r) of None \<Rightarrow> False | Some t \<Rightarrow> t \<ge> fortyEightHoursAgo))"

definition newestFirst :: "JobRow list \<Rightarrow> JobRow list" where
  "newestFirst rows =
     sort_key (\<lambda>r. case last_verified_at (snd r) of None \<Rightarrow> 0 | Some t \<Rightarrow> - t) rows"

definition listingQuery :: "nat \<Rightarrow> int \<Rightarrow> JobRow list \<Rightarrow> JobRow list" where
  "listingQuery limit now rows =
     (let fortyEightHoursAgo = now - 48 * 60 * 60 * 1000
      in take limit (newestFirst (filter (publicListingWhere fortyEightHoursAgo) rows)))"

definition homePageJobs :: "int \<Rightarrow> JobRow list \<Rightarrow> JobRow list" where
  "homePageJobs now rows = listingQuery 10 now rows"

definition homePageCards :: "int \<Rightarrow> JobRow list \<Rightarrow> JobRow list" where
  "homePageCards now rows = take 5 (homePageJobs now rows)"

definition homePageCount :: "int \<Rightarrow> JobRow list \<Rightarrow> nat" where
  "homePageCount now rows =
     (let fortyEightHoursAgo = now - 48 * 60 * 60 * 1000
      in length (filter (publicListingWhere fortyEightHoursAgo) rows))"

definition jobsPageJobs :: "int \<Rightarrow> JobRow list \<Rightarrow> JobRow list" where
  "jobsPageJobs now rows = listingQuery 10000 now rows"

section \<open>Names for the stages of a run\<close>

text \<open>
  The local constants of \<open>runPipeline\<close> (\<open>jobs\<close>, \<open>existingUrls\<close>, \<open>newJobs\<close>,
  \<open>verificationResults\<close>, \<open>validJobs\<close>, \<open>aiResults\<close>, \<open>approvedJobs\<close>) as functions
  of the environment and the table, so that statements about a run can name them.
\<close>

definition jobsOf :: "Env \<Rightarrow> ScrapedJob list" where
  "jobsOf env = (case scrapeAllSources env of Inl e \<Rightarrow> [] | Inr scraped \<Rightarrow> scraped)"

definition existingUrlsOf :: "Env \<Rightarrow> World \<Rightarrow> string set" where
  "existingUrlsOf env w = fst (loadExistingUrls env w [])"

definition newJobsOf :: "Env \<Rightarrow> World \<Rightarrow> ScrapedJob list" where
  "newJobsOf env w = filter (isNewJob (existingUrlsOf env w)) (jobsOf env)"

definition verificationResultsOf :: "Env \<Rightarrow> World \<Rightarrow> (ScrapedJob \<rightharpoonup> VerificationResult)" where
  "verificationResultsOf env w =
     (case verifyJobs env (newJobsOf env w) of Inl e \<Rightarrow> Map.empty | Inr results \<Rightarrow> results)"

definition validJobsOf :: "Env \<Rightarrow> World \<Rightarrow> ScrapedJob list" where
  "validJobsOf env w = filter (passedVerification (verificationResultsOf env w)) (newJobsOf env w)"

definition aiResultsOf :: "Env \<Rightarrow> World \<Rightarrow> (ScrapedJob \<rightharpoonup> AIAnalysisResult)" where
  "aiResultsOf env w =
     (case analyzeJobs env (validJobsOf env w) of Inl e \<Rightarrow> Map.empty | Inr results \<Rightarrow> results)"

definition scoredJobsOf :: "Env \<Rightarrow> World \<Rightarrow> JobWithAnalysis list" where
  "scoredJobsOf env w =
     map (combine (verificationResultsOf env w) (aiResultsOf env w)) (validJobsOf env w)"

definition approvedJobsOf :: "Env \<Rightarrow> World \<Rightarrow> JobWithAnalysis list" where
  "approvedJobsOf env w = filter isApproved (scoredJobsOf env w)"

section \<open>The properties in the words of the specification\<close>

subsection \<open>Signals of the rule engine\<close>

definition ruleText :: "ScrapedJob \<Rightarrow> string" where
  "ruleText j = toLowerCase (title j @ '' '' @ orEmpty (description j))"

definition urgencyLanguage :: "ScrapedJob \<Rightarrow> bool" where
  "urgencyLanguage j =
     (str_includes (ruleText j) ''urgently'' \<or> str_includes (ruleText j) ''immediate'')"

definition contradictoryExperience :: "ScrapedJob \<Rightarrow> bool" where
  "contradictoryExperience j =
     (str_includes (ruleText j) ''no experience'' \<and> str_includes (ruleText j) ''senior'')"

definition undisclosedCompany :: "ScrapedJob \<Rightarrow> bool" where
  "undisclosedCompany j =
     (length (company j) < 3 \<or> toLowerCase (company j) = ''confidential'')"

definition descriptionUnder100 :: "ScrapedJob \<Rightarrow> bool" where
  "descriptionUnder100 j = (length (orEmpty (description j)) < 100)"

definition guaranteedIncomeClaims :: "ScrapedJob \<Rightarrow> bool" where
  "guaranteedIncomeClaims j =
     (str_includes (ruleText j) ''guaranteed'' \<or> str_includes (ruleText j) ''unlimited earning'')"

definition validSalaryRange :: "ScrapedJob \<Rightarrow> bool" where
  "validSalaryRange j =
     (truthy (salaryMin j) \<and> truthy (salaryMax j) \<and>
      (case salaryMin j of None \<Rightarrow> False
       | Some lo \<Rightarrow> (case salaryMax j of None \<Rightarrow> False | Some hi \<Rightarrow> lo < hi)))"

definition teamLanguage :: "ScrapedJob \<Rightarrow> bool" where
  "teamLanguage j =
     (str_includes (ruleText j) ''team'' \<or> str_includes (ruleText j) ''report to''
      \<or> str_includes (ruleText j) ''manager'')"

definition knownAtsUrl :: "ScrapedJob \<Rightarrow> bool" where
  "knownAtsUrl j =
     (str_includes (applyUrl j) ''greenhouse'' \<or> str_includes (applyUrl j) ''lever''
      \<or> str_includes (applyUrl j) ''workday'')"

definition descriptionOver500 :: "ScrapedJob \<Rightarrow> bool" where
  "descriptionOver500 j = (length (orEmpty (description j)) > 500)"

definition points :: "bool \<Rightarrow> int \<Rightarrow> int" where
  "points signal n = (if signal then n else 0)"

definition listedAdjustments :: "ScrapedJob \<Rightarrow> int" where
  "listedAdjustments j =
     - points (urgencyLanguage j) 15 - points (contradictoryExperience j) 20
     - points (undisclosedCompany j) 15 - points (descriptionUnder100 j) 10
     - points (guaranteedIncomeClaims j) 25 + points (validSalaryRange j) 10
     + points (teamLanguage j) 5 + points (knownAtsUrl j) 10
     + points (descriptionOver500 j) 5"

definition noSignals :: "ScrapedJob \<Rightarrow> bool" where
  "noSignals j =
     (\<not> urgencyLanguage j \<and> \<not> contradictoryExperience j \<and> \<not> undisclosedCompany j \<and>
      \<not> descriptionUnder100 j \<and> \<not> guaranteedIncomeClaims j \<and> \<not> teamLanguage j \<and>
      \<not> knownAtsUrl j \<and> \<not> descriptionOver500 j)"

subsection \<open>Red flags\<close>

definition redFlagText :: "ScrapedJob \<Rightarrow> string" where
  "redFlagText j = title j @ '' '' @ orEmpty (description j)"

definition containsIgnoringCase :: "string \<Rightarrow> string \<Rightarrow> bool" where
  "containsIgnoringCase s p = str_includes (toLowerCase s) (toLowerCase p)"

definition vagueCompany :: "ScrapedJob \<Rightarrow> bool" where
  "vagueCompany j =
     (length (company j) < 3 \<or> toLowerCase (company j) = ''company''
      \<or> toLowerCase (company j) = ''confidential'')"

subsection \<open>Stored URLs, age of a record\<close>

definition storedUrls :: "JobRow list \<Rightarrow> string set" where
  "storedUrls rows = apply_url ` snd ` set rows \<union> source_url ` snd ` set rows"

definition hours :: "int \<Rightarrow> int" where
  "hours n = n * 60 * 60 * 1000"

definition ageAt :: "int \<Rightarrow> JobRow \<Rightarrow> int option" where
  "ageAt now r = map_option (\<lambda>t. now - t) (last_verified_at (snd r))"

section \<open>Example data\<close>

definition juniorDeveloper :: ScrapedJob where
  "juniorDeveloper =
     \<lparr>title = ''Junior Developer'', company = ''Acme'', location = ''Remote'',
      locationType = REMOTE, salaryMin = Some 70000, salaryMax = Some 90000,
      applyUrl = ''https://acme.example/jobs/1'', sourceUrl = ''https://remoteok.com/l/1'',
      source = ''remoteok'', description = None\<rparr>"

definition quietEnv :: Env where
  "quietEnv =
     \<lparr>remoteOK = [], remotive = [], arbeitnow = [], himalayas = [], jobicy = [],
      weWorkRemotely = [], greenhouseAll = [], leverAll = [], scrapeFault = None,
      fetch = (\<lambda>m u. Response 200), hostname = (\<lambda>u. Some ''acme.example''),
      verifyFault = None, openAI = (\<lambda>j. None), anthropic = (\<lambda>j. None),
      analyzeFault = None, clock = (\<lambda>n. 1000000000 + int n), toISOString = showInt,
      existingSelectFault = None, insertFault = (\<lambda>p. None), staleSelectFault = None\<rparr>"

definition emptyWorld :: World where
  "emptyWorld = \<lparr>db = [], ticks = 0\<rparr>"

definition plainPosting :: ScrapedJob where
  "plainPosting =
     \<lparr>title = ''Developer'', company = ''Acme'', location = ''Remote'',
      locationType = REMOTE, salaryMin = None, salaryMax = None,
      applyUrl = ''https://acme.example/jobs/2'', sourceUrl = ''https://remotive.com/j/2'',
      source = ''remotive'',
      description = Some (''We build billing software for small clinics. You will write ''
        @ ''and test Python services with two other engineers.'')\<rparr>"

definition scamPosting :: ScrapedJob where
  "scamPosting =
     \<lparr>title = ''Agent'', company = ''Confidential'', location = ''Remote'',
      locationType = REMOTE, salaryMin = Some 250000, salaryMax = None,
      applyUrl = ''https://jobs.example/3'', sourceUrl = ''https://jobicy.com/j/3'',
      source = ''jobicy'', description = Some ''GUARANTEED Income''\<rparr>"

definition juniorDeveloperCrossPost :: ScrapedJob where
  "juniorDeveloperCrossPost =
     \<lparr>title = ''JUNIOR developer'', company = ''ACME'', location = ''Berlin'',
      locationType = ONSITE, salaryMin = None, salaryMax = None,
      applyUrl = ''https://acme.example/careers/77'', sourceUrl = ''https://remotive.com/j/77'',
      source = ''remotive'', description = None\<rparr>"

definition crossPostEnv :: Env where
  "crossPostEnv = quietEnv\<lparr>remoteOK := [juniorDeveloper], remotive := [juniorDeveloperCrossPost]\<rparr>"

definition boundaryNow :: int where
  "boundaryNow = 200000000"

definition boundaryRecord :: JobRow where
  "boundaryRecord =
     (1, \<lparr>row_title = ''Junior Developer'', row_company = ''Acme'', row_location = ''Remote'',
          location_type = REMOTE, salary_min = None, salary_max = None,
          apply_url = ''https://acme.example/jobs/1'', source_url = ''https://remoteok.com/l/1'',
          row_source = Some ''remoteok'', verification_status = VERIFIED,
          last_verified_at = Some 27200000, verification_notes = None\<rparr>)"

subsection \<open>Insert outcomes\<close>

text \<open>
  An insert succeeds or fails whatever the timestamp in its row is; and a posting
  whose row the store accepts.
\<close>

definition stampBlind :: "Env \<Rightarrow> bool" where
  "stampBlind env = (\<forall>p t. insertFault env (p\<lparr>last_verified_at := t\<rparr>) = insertFault env p)"

definition insertOk :: "Env \<Rightarrow> JobWithAnalysis \<Rightarrow> bool" where
  "insertOk env item =
     (case verification item of
        None \<Rightarrow> False
      | Some v \<Rightarrow> insertFault env (insertRow (job item) (aiAnalysis item) v None) = None)"

text \<open>
  The row that the insertion loop builds for an accepted posting: for an approved
  one it carries a reading of the clock, taken between the readings numbered
  \<open>lo\<close> and \<open>hi\<close>; for any other it carries no timestamp.
\<close>

definition rowOf :: "Env \<Rightarrow> nat \<Rightarrow> nat \<Rightarrow> JobWithAnalysis \<Rightarrow> JobInsert \<Rightarrow> bool" where
  "rowOf env lo hi item r =
     (case verification item of
        None \<Rightarrow> False
      | Some v \<Rightarrow>
          if recommendation (aiAnalysis item) = APPROVE
          then \<exists>n \<in> {lo..<hi}. r = insertRow (job item) (aiAnalysis item) v (Some (clock env n))
          else r = insertRow (job item) (aiAnalysis item) v None)"

text \<open>The message that the loop records when the insert of a posting fails.\<close>

definition insertErrorFor :: "JobWithAnalysis \<Rightarrow> string \<Rightarrow> string" where
  "insertErrorFor item m = ''Insert error for '' @ title (job item) @ '': '' @ m"

text \<open>Environments with one posting from the first source.\<close>

definition approveEnv :: Env where
  "approveEnv = quietEnv\<lparr>remoteOK := [juniorDeveloper]\<rparr>"

definition domainEnv :: Env where
  "domainEnv = approveEnv\<lparr>fetch :=
     (\<lambda>m u. if u = ''https://acme.example/jobs/1'' then Response 200 else Response 404)\<rparr>"

definition rejectAssessment :: AIAnalysisResult where
  "rejectAssessment =
     \<lparr>legitimacyScore = 30, isLikelyGhostJob = True, concerns = [''Vague description''],
      positiveSignals = [], recommendation = REJECT, reasoning = ''Looks abandoned''\<rparr>"

definition rejectEnv :: Env where
  "rejectEnv = approveEnv\<lparr>openAI := (\<lambda>j. Some rejectAssessment)\<rparr>"

definition noReadEnv :: Env where
  "noReadEnv = approveEnv\<lparr>existingSelectFault := Some (ErrorResult ''connection refused'')\<rparr>"

text \<open>
  An environment with two postings: the rule engine approves the first (score 70)
  and puts the second, which has neither salary nor description, up for review
  (score 60). The same two postings with the scoring stage failing as a whole.
\<close>

definition supportIntern :: ScrapedJob where
  "supportIntern =
     \<lparr>title = ''Support Intern'', company = ''Acme'', location = ''Remote'',
      locationType = REMOTE, salaryMin = None, salaryMax = None,
      applyUrl = ''https://acme.example/jobs/5'', sourceUrl = ''https://remotive.com/j/5'',
      source = ''remotive'', description = None\<rparr>"

definition mixedEnv :: Env where
  "mixedEnv = quietEnv\<lparr>remoteOK := [juniorDeveloper], remotive := [supportIntern]\<rparr>"

definition noAnalysisEnv :: Env where
  "noAnalysisEnv = mixedEnv\<lparr>analyzeFault := Some ''RangeError: out of memory''\<rparr>"

text \<open>
  Postings of two companies whose names and titles differ and whose keys in the
  aggregator are the same text: \<open>coca-cola-engineer\<close>.
\<close>

definition cocaColaEngineer :: ScrapedJob where
  "cocaColaEngineer =
     \<lparr>title = ''Engineer'', company = ''Coca-Cola'', location = ''Atlanta'',
      locationType = ONSITE, salaryMin = None, salaryMax = None,
      applyUrl = ''https://coca-cola.example/jobs/9'', sourceUrl = ''https://remoteok.com/l/9'',
      source = ''remoteok'', description = None\<rparr>"

definition colaEngineerAtCoca :: ScrapedJob where
  "colaEngineerAtCoca =
     \<lparr>title = ''Cola-Engineer'', company = ''Coca'', location = ''Remote'',
      locationType = REMOTE, salaryMin = None, salaryMax = None,
      applyUrl = ''https://coca.example/jobs/4'', sourceUrl = ''https://remotive.com/j/4'',
      source = ''remotive'', description = None\<rparr>"

definition colaEngineerAtCocaRepost :: ScrapedJob where
  "colaEngineerAtCocaRepost =
     colaEngineerAtCoca\<lparr>applyUrl := ''https://coca.example/careers/4'',
                        sourceUrl := ''https://jobicy.com/j/4'', source := ''jobicy''\<rparr>"

definition hyphenEnv :: Env where
  "hyphenEnv = quietEnv\<lparr>remoteOK := [cocaColaEngineer], remotive := [colaEngineerAtCoca],
                        jobicy := [colaEngineerAtCocaRepost]\<rparr>"

subsection \<open>The sweep, record by record\<close>

text \<open>
  Whether the link of a record answers with a status from 200 to 399; the reason
  that the note of a broken link gives; and the row that the sweep writes for a
  record \<open>j\<close> over the stored columns \<open>old\<close>, with readings of the clock numbered
  from \<open>lo\<close> up to \<open>hi\<close>.
\<close>

definition linkAlive :: "Env \<Rightarrow> JobRow \<Rightarrow> bool" where
  "linkAlive env j =
     (case fetch env HEAD (apply_url (snd j)) of
        Response code \<Rightarrow> 200 \<le> code \<and> code < 400
      | FetchThrew \<Rightarrow> False)"

definition brokenReason :: "Env \<Rightarrow> JobRow \<Rightarrow> string" where
  "brokenReason env j =
     (case fetch env HEAD (apply_url (snd j)) of
        Response code \<Rightarrow> ''Link broken (HTTP '' @ showNat code @ '')''
      | FetchThrew \<Rightarrow> ''Link unreachable'')"

definition sweptRow :: "Env \<Rightarrow> nat \<Rightarrow> nat \<Rightarrow> JobRow \<Rightarrow> JobInsert \<Rightarrow> JobInsert \<Rightarrow> bool" where
  "sweptRow env lo hi j old new =
     (if linkAlive env j
      then \<exists>n \<in> {lo..<hi}. \<exists>m \<in> {lo..<hi}.
             new = old\<lparr>last_verified_at := Some (clock env n),
                       verification_notes :=
                         Some (''Re-verified at '' @ toISOString env (clock env m))\<rparr>
      else \<exists>n \<in> {lo..<hi}.
             new = old\<lparr>verification_status := BROKEN_LINK,
                       verification_notes :=
                         Some (brokenReason env j @ '' at '' @ toISOString env (clock env n))\<rparr>)"

definition dueForSweep :: "int \<Rightarrow> JobRow \<Rightarrow> bool" where
  "dueForSweep now r =
     (verification_status (snd r) = VERIFIED \<and>
      (case ageAt now r of None \<Rightarrow> False | Some age \<Rightarrow> age > hours 24))"

definition sweepEnv :: Env where
  "sweepEnv = quietEnv\<lparr>fetch := (\<lambda>m u. Response 404), clock := (\<lambda>n. 135200000 + int n)\<rparr>"

definition staleWorld :: World where
  "staleWorld = \<lparr>db = [boundaryRecord], ticks = 0\<rparr>"

section \<open>Evaluation on the printable ASCII characters\<close>

lemma toLowerChar_ascii:
  "toLowerChar (CHR '' '') = CHR '' ''"
  "toLowerChar (CHR ''!'') = CHR ''!''"
  "toLowerChar (CHR 0x22) = CHR 0x22"
  "toLowerChar (CHR ''#'') = CHR ''#''"
  "toLowerChar (CHR ''$'') = CHR ''$''"
  "toLowerChar (CHR ''%'') = CHR ''%''"
  "toLowerChar (CHR ''&'') = CHR ''&''"
  "toLowerChar (CHR 0x27) = CHR 0x27"
  "toLowerChar (CHR ''('') = CHR ''(''"
  "toLowerChar (CHR '')'') = CHR '')''"
  "toLowerChar (CHR ''*'') = CHR ''*''"
  "toLowerChar (CHR ''+'') = CHR ''+''"
  "toLowerChar (CHR '','') = CHR '',''"
  "toLowerChar (CHR ''-'') = CHR ''-''"
  "toLowerChar (CHR ''.'') = CHR ''.''"
  "toLowerChar (CHR ''/'') = CHR ''/''"
  "toLowerChar (CHR ''0'') = CHR ''0''"
  "toLowerChar (CHR ''1'') = CHR ''1''"
  "toLowerChar (CHR ''2'') = CHR ''2''"
  "toLowerChar (CHR ''3'') = CHR ''3''"
  "toLowerChar (CHR ''4'') = CHR ''4''"
  "toLowerChar (CHR ''5'') = CHR ''5''"
  "toLowerChar (CHR ''6'') = CHR ''6''"
  "toLowerChar (CHR ''7'') = CHR ''7''"
  "toLowerChar (CHR ''8'') = CHR ''8''"
  "toLowerChar (CHR ''9'') = CHR ''9''"
  "toLowerChar (CHR '':'') = CHR '':''"
  "toLowerChar (CHR '';'') = CHR '';''"
  "toLowerChar (CHR ''<'') = CHR ''<''"
  "toLowerChar (CHR ''='') = CHR ''=''"
  "toLowerChar (CHR ''>'') = CHR ''>''"
  "toLowerChar (CHR ''?'') = CHR ''?''"
  "toLowerChar (CHR ''@'') = CHR ''@''"
  "toLowerChar (CHR ''A'') = CHR ''a''"
  "toLowerChar (CHR ''B'') = CHR ''b''"
  "toLowerChar (CHR ''C'') = CHR ''c''"
  "toLowerChar (CHR ''D'') = CHR ''d''"
  "toLowerChar (CHR ''E'') = CHR ''e''"
  "toLowerChar (CHR ''F'') = CHR ''f''"
  "toLowerChar (CHR ''G'') = CHR ''g''"
  "toLowerChar (CHR ''H'') = CHR ''h''"
  "toLowerChar (CHR ''I'') = CHR ''i''"
  "toLowerChar (CHR ''J'') = CHR ''j''"
  "toLowerChar (CHR ''K'') = CHR ''k''"
  "toLowerChar (CHR ''L'') = CHR ''l''"
  "toLowerChar (CHR ''M'') = CHR ''m''"
  "toLowerChar (CHR ''N'') = CHR ''n''"
  "toLowerChar (CHR ''O'') = CHR ''o''"
  "toLowerChar (CHR ''P'') = CHR ''p''"
  "toLowerChar (CHR ''Q'') = CHR ''q''"
  "toLowerChar (CHR ''R'') = CHR ''r''"
  "toLowerChar (CHR ''S'') = CHR ''s''"
  "toLowerChar (CHR ''T'') = CHR ''t''"
  "toLowerChar (CHR ''U'') = CHR ''u''"
  "toLowerChar (CHR ''V'') = CHR ''v''"
  "toLowerChar (CHR ''W'') = CHR ''w''"
  "toLowerChar (CHR ''X'') = CHR ''x''"
  "toLowerChar (CHR ''Y'') = CHR ''y''"
  "toLowerChar (CHR ''Z'') = CHR ''z''"
  "toLowerChar (CHR ''['') = CHR ''[''"
  "toLowerChar (CHR 0x5C) = CHR 0x5C"
  "toLowerChar (CHR '']'') = CHR '']''"
  "toLowerChar (CHR ''^'') = CHR ''^''"
  "toLowerChar (CHR ''_'') = CHR ''_''"
  "toLowerChar (CHR 0x60) = CHR 0x60"
  "toLowerChar (CHR ''a'') = CHR ''a''"
  "toLowerChar (CHR ''b'') = CHR ''b''"
  "toLowerChar (CHR ''c'') = CHR ''c''"
  "toLowerChar (CHR ''d'') = CHR ''d''"
  "toLowerChar (CHR ''e'') = CHR ''e''"
  "toLowerChar (CHR ''f'') = CHR ''f''"
  "toLowerChar (CHR ''g'') = CHR ''g''"
  "toLowerChar (CHR ''h'') = CHR ''h''"
  "toLowerChar (CHR ''i'') = CHR ''i''"
  "toLowerChar (CHR ''j'') = CHR ''j''"
  "toLowerChar (CHR ''k'') = CHR ''k''"
  "toLowerChar (CHR ''l'') = CHR ''l''"
  "toLowerChar (CHR ''m'') = CHR ''m''"
  "toLowerChar (CHR ''n'') = CHR ''n''"
  "toLowerChar (CHR ''o'') = CHR ''o''"
  "toLowerChar (CHR ''p'') = CHR ''p''"
  "toLowerChar (CHR ''q'') = CHR ''q''"
  "toLowerChar (CHR ''r'') = CHR ''r''"
  "toLowerChar (CHR ''s'') = CHR ''s''"
  "toLowerChar (CHR ''t'') = CHR ''t''"
  "toLowerChar (CHR ''u'') = CHR ''u''"
  "toLowerChar (CHR ''v'') = CHR ''v''"
  "toLowerChar (CHR ''w'') = CHR ''w''"
  "toLowerChar (CHR ''x'') = CHR ''x''"
  "toLowerChar (CHR ''y'') = CHR ''y''"
  "toLowerChar (CHR ''z'') = CHR ''z''"
  "toLowerChar (CHR ''{'') = CHR ''{''"
  "toLowerChar (CHR ''|'') = CHR ''|''"
  "toLowerChar (CHR ''}'') = CHR ''}''"
  "toLowerChar (CHR ''~'') = CHR ''~''"
  by (simp_all add: toLowerChar_def isUpperCode_def char_of_eq_iff)

lemma canonicalize_ascii:
  "canonicalize (CHR '' '') = CHR '' ''"
  "canonicalize (CHR ''!'') = CHR ''!''"
  "canonicalize (CHR 0x22) = CHR 0x22"
  "canonicalize (CHR ''#'') = CHR ''#''"
  "canonicalize (CHR ''$'') = CHR ''$''"
  "canonicalize (CHR ''%'') = CHR ''%''"
  "canonicalize (CHR ''&'') = CHR ''&''"
  "canonicalize (CHR 0x27) = CHR 0x27"
  "canonicalize (CHR ''('') = CHR ''(''"
  "canonicalize (CHR '')'') = CHR '')''"
  "canonicalize (CHR ''*'') = CHR ''*''"
  "canonicalize (CHR ''+'') = CHR ''+''"
  "canonicalize (CHR '','') = CHR '',''"
  "canonicalize (CHR ''-'') = CHR ''-''"
  "canonicalize (CHR ''.'') = CHR ''.''"
  "canonicalize (CHR ''/'') = CHR ''/''"
  "canonicalize (CHR ''0'') = CHR ''0''"
  "canonicalize (CHR ''1'') = CHR ''1''"
  "canonicalize (CHR ''2'') = CHR ''2''"
  "canonicalize (CHR ''3'') = CHR ''3''"
  "canonicalize (CHR ''4'') = CHR ''4''"
  "canonicalize (CHR ''5'') = CHR ''5''"
  "canonicalize (CHR ''6'') = CHR ''6''"
  "canonicalize (CHR ''7'') = CHR ''7''"
  "canonicalize (CHR ''8'') = CHR ''8''"
  "canonicalize (CHR ''9'') = CHR ''9''"
  "canonicalize (CHR '':'') = CHR '':''"
  "canonicalize (CHR '';'') = CHR '';''"
  "canonicalize (CHR ''<'') = CHR ''<''"
  "canonicalize (CHR ''='') = CHR ''=''"
  "canonicalize (CHR ''>'') = CHR ''>''"
  "canonicalize (CHR ''?'') = CHR ''?''"
  "canonicalize (CHR ''@'') = CHR ''@''"
  "canonicalize (CHR ''A'') = CHR ''A''"
  "canonicalize (CHR ''B'') = CHR ''B''"
  "canonicalize (CHR ''C'') = CHR ''C''"
  "canonicalize (CHR ''D'') = CHR ''D''"
  "canonicalize (CHR ''E'') = CHR ''E''"
  "canonicalize (CHR ''F'') = CHR ''F''"
  "canonicalize (CHR ''G'') = CHR ''G''"
  "canonicalize (CHR ''H'') = CHR ''H''"
  "canonicalize (CHR ''I'') = CHR ''I''"
  "canonicalize (CHR ''J'') = CHR ''J''"
  "canonicalize (CHR ''K'') = CHR ''K''"
  "canonicalize (CHR ''L'') = CHR ''L''"
  "canonicalize (CHR ''M'') = CHR ''M''"
  "canonicalize (CHR ''N'') = CHR ''N''"
  "canonicalize (CHR ''O'') = CHR ''O''"
  "canonicalize (CHR ''P'') = CHR ''P''"
  "canonicalize (CHR ''Q'') = CHR ''Q''"
  "canonicalize (CHR ''R'') = CHR ''R''"
  "canonicalize (CHR ''S'') = CHR ''S''"
  "canonicalize (CHR ''T'') = CHR ''T''"
  "canonicalize (CHR ''U'') = CHR ''U''"
  "canonicalize (CHR ''V'') = CHR ''V''"
  "canonicalize (CHR ''W'') = CHR ''W''"
  "canonicalize (CHR ''X'') = CHR ''X''"
  "canonicalize (CHR ''Y'') = CHR ''Y''"
  "canonicalize (CHR ''Z'') = CHR ''Z''"
  "canonicalize (CHR ''['') = CHR ''[''"
  "canonicalize (CHR 0x5C) = CHR 0x5C"
  "canonicalize (CHR '']'') = CHR '']''"
  "canonicalize (CHR ''^'') = CHR ''^''"
  "canonicalize (CHR ''_'') = CHR ''_''"
  "canonicalize (CHR 0x60) = CHR 0x60"
  "canonicalize (CHR ''a'') = CHR ''A''"
  "canonicalize (CHR ''b'') = CHR ''B''"
  "canonicalize (CHR ''c'') = CHR ''C''"
  "canonicalize (CHR ''d'') = CHR ''D''"
  "canonicalize (CHR ''e'') = CHR ''E''"
  "canonicalize (CHR ''f'') = CHR ''F''"
  "canonicalize (CHR ''g'') = CHR ''G''"
  "canonicalize (CHR ''h'') = CHR ''H''"
  "canonicalize (CHR ''i'') = CHR ''I''"
  "canonicalize (CHR ''j'') = CHR ''J''"
  "canonicalize (CHR ''k'') = CHR ''K''"
  "canonicalize (CHR ''l'') = CHR ''L''"
  "canonicalize (CHR ''m'') = CHR ''M''"
  "canonicalize (CHR ''n'') = CHR ''N''"
  "canonicalize (CHR ''o'') = CHR ''O''"
  "canonicalize (CHR ''p'') = CHR ''P''"
  "canonicalize (CHR ''q'') = CHR ''Q''"
  "canonicalize (CHR ''r'') = CHR ''R''"
  "canonicalize (CHR ''s'') = CHR ''S''"
  "canonicalize (CHR ''t'') = CHR ''T''"
  "canonicalize (CHR ''u'') = CHR ''U''"
  "canonicalize (CHR ''v'') = CHR ''V''"
  "canonicalize (CHR ''w'') = CHR ''W''"
  "canonicalize (CHR ''x'') = CHR ''X''"
  "canonicalize (CHR ''y'') = CHR ''Y''"
  "canonicalize (CHR ''z'') = CHR ''Z''"
  "canonicalize (CHR ''{'') = CHR ''{''"
  "canonicalize (CHR ''|'') = CHR ''|''"
  "canonicalize (CHR ''}'') = CHR ''}''"
  "canonicalize (CHR ''~'') = CHR ''~''"
  by (simp_all add: canonicalize_def isLowerCode_def char_of_eq_iff)

section \<open>Strings: evaluation and characterisation\<close>

text \<open>
  \<open>startsWith\<close> and \<open>str_includes\<close> decide whether the pattern is a prefix of the
  string, and whether it occurs in it.
\<close>

lemma startsWith_iff: "startsWith s p = (\<exists>rest. s = p @ rest)"
proof (induction s p rule: startsWith.induct)
  case (1 s)
  then show ?case by simp
next
  case (2 p ps)
  then show ?case by simp
next
  case (3 c cs p ps)
  then show ?case by auto
qed

lemma str_includes_iff: "str_includes s p = (\<exists>pre post. s = pre @ p @ post)"
proof (induction s)
  case Nil
  then show ?case by auto
next
  case (Cons c cs)
  have "str_includes (c # cs) p = ((\<exists>rest. c # cs = p @ rest) \<or> (\<exists>pre post. cs = pre @ p @ post))"
    by (simp add: startsWith_iff Cons.IH)
  also have "\<dots> = (\<exists>pre post. c # cs = pre @ p @ post)"
  proof
    assume "(\<exists>rest. c # cs = p @ rest) \<or> (\<exists>pre post. cs = pre @ p @ post)"
    then show "\<exists>pre post. c # cs = pre @ p @ post"
    proof
      assume "\<exists>rest. c # cs = p @ rest"
      then obtain rest where "c # cs = [] @ p @ rest" by auto
      then show ?thesis by blast
    next
      assume "\<exists>pre post. cs = pre @ p @ post"
      then obtain pre post where "c # cs = (c # pre) @ p @ post" by auto
      then show ?thesis by blast
    qed
  next
    assume "\<exists>pre post. c # cs = pre @ p @ post"
    then obtain pre post where h: "c # cs = pre @ p @ post" by blast
    show "(\<exists>rest. c # cs = p @ rest) \<or> (\<exists>pre post. cs = pre @ p @ post)"
    proof (cases pre)
      case Nil
      with h show ?thesis by auto
    next
      case (Cons x xs)
      with h have "cs = xs @ p @ post" by simp
      then show ?thesis by blast
    qed
  qed
  finally show ?case .
qed

text \<open>
  Two code units with the same lower-case form have the same canonical form, so
  a comparison of lower-cased texts agrees with the matching of a literal under
  the flag \<open>i\<close>.
\<close>

lemma upper_shift: "isUpperCode n \<Longrightarrow> isLowerCode (n + 32) \<and> \<not> isLowerCode n \<and> \<not> isUpperCode (n + 32)"
  unfolding isUpperCode_def isLowerCode_def by arith

lemma of_char_toLowerChar:
  "(of_char (toLowerChar x) :: nat) = (if isUpperCode (of_char x) then of_char x + 32 else of_char x)"
proof (cases "isUpperCode (of_char x)")
  case True
  then have "(of_char x :: nat) + 32 < 256" unfolding isUpperCode_def by arith
  then have "((of_char x :: nat) + 32) mod 256 = of_char x + 32" by simp
  with True show ?thesis by (simp add: toLowerChar_def)
next
  case False
  then show ?thesis by (simp add: toLowerChar_def)
qed

lemma of_char_canonicalize:
  "(of_char (canonicalize x) :: nat) = (if isLowerCode (of_char x) then of_char x - 32 else of_char x)"
proof (cases "isLowerCode (of_char x)")
  case True
  have "(of_char x :: nat) < 256" by simp
  then have "(of_char x :: nat) - 32 < 256" by arith
  then have "((of_char x :: nat) - 32) mod 256 = of_char x - 32" by simp
  with True show ?thesis by (simp add: canonicalize_def)
next
  case False
  then show ?thesis by (simp add: canonicalize_def)
qed

lemma lower_eq_canon:
  assumes "toLowerChar x = toLowerChar c"
  shows "canonicalize x = canonicalize c"
proof -
  define n :: nat where "n = of_char x"
  define m :: nat where "m = of_char c"
  have "(of_char (toLowerChar x) :: nat) = of_char (toLowerChar c)" using assms by simp
  then have e: "(if isUpperCode n then n + 32 else n) = (if isUpperCode m then m + 32 else m)"
    by (simp only: of_char_toLowerChar n_def m_def)
  have "(if isLowerCode n then n - 32 else n) = (if isLowerCode m then m - 32 else m)"
  proof -
    consider "isUpperCode n" "isUpperCode m" | "isUpperCode n" "\<not> isUpperCode m"
      | "\<not> isUpperCode n" "isUpperCode m" | "\<not> isUpperCode n" "\<not> isUpperCode m" by blast
    then show ?thesis
    proof cases
      case 1
      with e have "n = m" by simp
      then show ?thesis by simp
    next
      case 2
      with e have "m = n + 32" by simp
      with upper_shift [OF 2(1)] show ?thesis by simp
    next
      case 3
      with e have "n = m + 32" by simp
      with upper_shift [OF 3(2)] show ?thesis by simp
    next
      case 4
      with e have "n = m" by simp
      then show ?thesis by simp
    qed
  qed
  then have "(of_char (canonicalize x) :: nat) = of_char (canonicalize c)"
    by (simp only: of_char_canonicalize n_def m_def)
  then show ?thesis by simp
qed

lemma lower_eq_canon_list:
  "map toLowerChar xs = map toLowerChar ys \<Longrightarrow> map canonicalize xs = map canonicalize ys"
proof (induction xs arbitrary: ys)
  case Nil
  then show ?case by simp
next
  case (Cons x xs)
  from Cons.prems obtain y ys' where ys: "ys = y # ys'" by (cases ys) simp_all
  from Cons.prems ys have h: "toLowerChar x = toLowerChar y"
    and t: "map toLowerChar xs = map toLowerChar ys'" by simp_all
  from h have c: "canonicalize x = canonicalize y" by (rule lower_eq_canon)
  from t have r: "map canonicalize xs = map canonicalize ys'" by (rule Cons.IH)
  show ?case unfolding ys list.map c r ..
qed

lemma rxm_lit:
  "rxm (lit p) s k =
     (\<exists>mid rest. s = mid @ rest \<and> map canonicalize mid = map canonicalize p \<and> k rest)"
proof (induction p arbitrary: s k)
  case Nil
  then show ?case by simp
next
  case (Cons a p)
  show ?case
  proof (cases s)
    case Nil
    then show ?thesis by simp
  next
    case s: (Cons x xs)
    have "rxm (lit (a # p)) (x # xs) k =
            (canonicalize x = canonicalize a \<and>
             (\<exists>mid rest. xs = mid @ rest \<and> map canonicalize mid = map canonicalize p \<and> k rest))"
      by (simp add: Cons.IH)
    also have "\<dots> = (\<exists>mid rest. x # xs = mid @ rest \<and>
                 map canonicalize mid = map canonicalize (a # p) \<and> k rest)"
    proof
      assume "canonicalize x = canonicalize a \<and>
             (\<exists>mid rest. xs = mid @ rest \<and> map canonicalize mid = map canonicalize p \<and> k rest)"
      then obtain mid rest where "canonicalize x = canonicalize a" "xs = mid @ rest"
        "map canonicalize mid = map canonicalize p" "k rest" by blast
      then have "x # xs = (x # mid) @ rest \<and>
          map canonicalize (x # mid) = map canonicalize (a # p) \<and> k rest"
        by simp
      then show "\<exists>mid rest. x # xs = mid @ rest \<and>
                 map canonicalize mid = map canonicalize (a # p) \<and> k rest" by blast
    next
      assume "\<exists>mid rest. x # xs = mid @ rest \<and>
                 map canonicalize mid = map canonicalize (a # p) \<and> k rest"
      then obtain mid rest where h: "x # xs = mid @ rest"
        "map canonicalize mid = map canonicalize (a # p)" "k rest" by blast
      from h(2) obtain y ys where mid: "mid = y # ys" by (cases mid) auto
      with h have "canonicalize x = canonicalize a" "xs = ys @ rest"
        "map canonicalize ys = map canonicalize p" by auto
      with h(3) show "canonicalize x = canonicalize a \<and>
             (\<exists>mid rest. xs = mid @ rest \<and> map canonicalize mid = map canonicalize p \<and> k rest)"
        by blast
    qed
    finally show ?thesis unfolding s .
  qed
qed

lemma rx_test_iff: "rx_test r s = (\<exists>pre t. s = pre @ t \<and> rxm r t (\<lambda>t. True))"
proof (induction s)
  case Nil
  then show ?case by simp
next
  case (Cons c cs)
  have "rx_test r (c # cs) =
          (rxm r (c # cs) (\<lambda>t. True) \<or> (\<exists>pre t. cs = pre @ t \<and> rxm r t (\<lambda>t. True)))"
    by (simp add: Cons.IH)
  also have "\<dots> = (\<exists>pre t. c # cs = pre @ t \<and> rxm r t (\<lambda>t. True))"
  proof
    assume "rxm r (c # cs) (\<lambda>t. True) \<or> (\<exists>pre t. cs = pre @ t \<and> rxm r t (\<lambda>t. True))"
    then show "\<exists>pre t. c # cs = pre @ t \<and> rxm r t (\<lambda>t. True)"
    proof
      assume "rxm r (c # cs) (\<lambda>t. True)"
      then have "c # cs = [] @ (c # cs) \<and> rxm r (c # cs) (\<lambda>t. True)" by simp
      then show ?thesis by blast
    next
      assume "\<exists>pre t. cs = pre @ t \<and> rxm r t (\<lambda>t. True)"
      then obtain pre t where "cs = pre @ t" "rxm r t (\<lambda>t. True)" by blast
      then have "c # cs = (c # pre) @ t \<and> rxm r t (\<lambda>t. True)" by simp
      then show ?thesis by blast
    qed
  next
    assume "\<exists>pre t. c # cs = pre @ t \<and> rxm r t (\<lambda>t. True)"
    then obtain pre t where h: "c # cs = pre @ t" "rxm r t (\<lambda>t. True)" by blast
    show "rxm r (c # cs) (\<lambda>t. True) \<or> (\<exists>pre t. cs = pre @ t \<and> rxm r t (\<lambda>t. True))"
    proof (cases pre)
      case Nil
      with h show ?thesis by simp
    next
      case (Cons q qs)
      with h have "cs = qs @ t" by simp
      with h(2) show ?thesis by blast
    qed
  qed
  finally show ?case .
qed

lemma rx_test_lit_of_contains:
  assumes "containsIgnoringCase s p"
  shows "rx_test (lit p) s"
proof -
  from assms obtain pre post where "toLowerCase s = pre @ toLowerCase p @ post"
    unfolding containsIgnoringCase_def str_includes_iff by blast
  then have "map toLowerChar s = pre @ (map toLowerChar p @ post)"
    by (simp add: toLowerCase_def)
  then obtain s1 s23 where s: "s = s1 @ s23"
    and e: "map toLowerChar p @ post = map toLowerChar s23"
    unfolding map_eq_append_conv by blast
  from e obtain s2 s3 where s23: "s23 = s2 @ s3"
    and m: "map toLowerChar p = map toLowerChar s2"
    unfolding append_eq_map_conv by blast
  from m have "map toLowerChar s2 = map toLowerChar p" by simp
  then have "map canonicalize s2 = map canonicalize p" by (rule lower_eq_canon_list)
  then have "rxm (lit p) (s2 @ s3) (\<lambda>t. True)"
    unfolding rxm_lit by blast
  with s s23 show ?thesis unfolding rx_test_iff by blast
qed


section \<open>Rule engine\<close>

lemma fst_applyIf_concern: "fst (applyIf c (concern msg n) st) = fst st - points c n"
  by (cases st) (simp add: applyIf_def points_def)

lemma fst_applyIf_positive: "fst (applyIf c (positive msg n) st) = fst st + points c n"
  by (cases st) (simp add: applyIf_def points_def)

lemma validSalaryRange_case:
  "validSalaryRange j =
     (case (salaryMin j, salaryMax j) of
        (Some lo, Some hi) \<Rightarrow> lo \<noteq> 0 \<and> hi \<noteq> 0 \<and> hi > lo
      | _ \<Rightarrow> False)"
  by (auto simp: validSalaryRange_def truthy_def split: option.splits)

lemma descriptionUnder100_raw:
  "(orEmpty (description j) = [] \<or> length (orEmpty (description j)) < 100) = descriptionUnder100 j"
  by (auto simp: descriptionUnder100_def)

lemma descriptionOver500_raw:
  "(orEmpty (description j) \<noteq> [] \<and> length (orEmpty (description j)) > 500) = descriptionOver500 j"
  by (auto simp: descriptionOver500_def)

lemma ruleSteps_score: "fst (ruleSteps j) = 70 + listedAdjustments j"
proof -
  have "fst (ruleSteps j) =
      70 - points (urgencyLanguage j) 15 - points (contradictoryExperience j) 20
         - points (undisclosedCompany j) 15 - points (descriptionUnder100 j) 10
         - points (guaranteedIncomeClaims j) 25 + points (validSalaryRange j) 10
         + points (teamLanguage j) 5 + points (knownAtsUrl j) 10
         + points (descriptionOver500 j) 5"
    unfolding ruleSteps_def Let_def fst_applyIf_concern fst_applyIf_positive
      descriptionUnder100_raw descriptionOver500_raw validSalaryRange_case
      urgencyLanguage_def contradictoryExperience_def undisclosedCompany_def
      guaranteedIncomeClaims_def teamLanguage_def knownAtsUrl_def ruleText_def
    by simp
  then show ?thesis by (simp add: listedAdjustments_def)
qed

lemma noSignals_adjustments:
  assumes "noSignals j" "salaryMin j = None" "salaryMax j = None"
  shows "listedAdjustments j = 0"
proof -
  from assms(2) have "\<not> validSalaryRange j" by (simp add: validSalaryRange_def truthy_def)
  with assms(1) show ?thesis by (simp add: noSignals_def listedAdjustments_def points_def)
qed

text \<open>
  C4. The rule engine is a total function: for every posting it returns a
  result. The score is 70 plus the listed adjustments of the signals present,
  clamped to the range from 0 to 100; the ghost flag holds exactly below 50; the
  recommendation is APPROVE exactly from 70, REVIEW exactly from 50 to 69, REJECT
  exactly below 50; a posting with no signal and no salary scores 70.
\<close>

theorem C4_rule_engine_score:
  "legitimacyScore (analyzeWithRules j) = max 0 (min 100 (70 + listedAdjustments j)) \<and>
   0 \<le> legitimacyScore (analyzeWithRules j) \<and> legitimacyScore (analyzeWithRules j) \<le> 100 \<and>
   isLikelyGhostJob (analyzeWithRules j) = (legitimacyScore (analyzeWithRules j) < 50) \<and>
   (recommendation (analyzeWithRules j) = APPROVE) = (legitimacyScore (analyzeWithRules j) \<ge> 70) \<and>
   (recommendation (analyzeWithRules j) = REVIEW) =
     (50 \<le> legitimacyScore (analyzeWithRules j) \<and> legitimacyScore (analyzeWithRules j) < 70) \<and>
   (recommendation (analyzeWithRules j) = REJECT) = (legitimacyScore (analyzeWithRules j) < 50) \<and>
   (noSignals j \<and> salaryMin j = None \<and> salaryMax j = None \<longrightarrow>
      legitimacyScore (analyzeWithRules j) = 70 \<and> recommendation (analyzeWithRules j) = APPROVE)"
proof -
  obtain raw cs ps where r: "ruleSteps j = (raw, cs, ps)" by (cases "ruleSteps j") auto
  with ruleSteps_score [of j] have raw: "raw = 70 + listedAdjustments j" by simp
  define score where "score = max 0 (min 100 raw)"
  have a: "analyzeWithRules j =
      \<lparr>legitimacyScore = score,
       isLikelyGhostJob = (score < 50),
       concerns = cs,
       positiveSignals = ps,
       recommendation =
         (if score \<ge> 70 then APPROVE else if score \<ge> 50 then REVIEW else REJECT),
       reasoning = ''Rule-based analysis score: '' @ showInt score @ ''/100. ''
         @ showNat (length cs) @ '' concerns, '' @ showNat (length ps)
         @ '' positive signals.''\<rparr>"
    unfolding analyzeWithRules_def r score_def by (simp only: prod.case Let_def)
  have s: "legitimacyScore (analyzeWithRules j) = score"
    and g: "isLikelyGhostJob (analyzeWithRules j) = (score < 50)"
    and c: "recommendation (analyzeWithRules j) =
              (if score \<ge> 70 then APPROVE else if score \<ge> 50 then REVIEW else REJECT)"
    unfolding a by simp_all
  have e: "score = max 0 (min 100 (70 + listedAdjustments j))"
    by (simp add: score_def raw)
  have b: "0 \<le> score" "score \<le> 100" by (simp_all add: score_def)
  have n: "noSignals j \<and> salaryMin j = None \<and> salaryMax j = None \<longrightarrow> score = 70"
    using noSignals_adjustments [of j] by (simp add: score_def raw)
  have rest:
    "0 \<le> score \<and> score \<le> 100 \<and> (score < 50) = (score < 50) \<and>
     ((if score \<ge> 70 then APPROVE else if score \<ge> 50 then REVIEW else REJECT) = APPROVE)
       = (score \<ge> 70) \<and>
     ((if score \<ge> 70 then APPROVE else if score \<ge> 50 then REVIEW else REJECT) = REVIEW)
       = (50 \<le> score \<and> score < 70) \<and>
     ((if score \<ge> 70 then APPROVE else if score \<ge> 50 then REVIEW else REJECT) = REJECT)
       = (score < 50) \<and>
     (noSignals j \<and> salaryMin j = None \<and> salaryMax j = None \<longrightarrow>
        score = 70 \<and>
        (if score \<ge> 70 then APPROVE else if score \<ge> 50 then REVIEW else REJECT) = APPROVE)"
    using b n by auto
  show ?thesis unfolding s g c by (rule conjI [OF e rest])
qed

theorem C4_rule_engine_score_witness:
  "noSignals plainPosting \<and> salaryMin plainPosting = None \<and> salaryMax plainPosting = None \<and>
   legitimacyScore (analyzeWithRules plainPosting) = 70 \<and>
   recommendation (analyzeWithRules plainPosting) = APPROVE \<and>
   \<not> isLikelyGhostJob (analyzeWithRules plainPosting)"
proof -
  have t: "ruleText plainPosting =
      ''developer we build billing software for small clinics. you will write ''
      @ ''and test python services with two other engineers.''"
    by (simp add: ruleText_def plainPosting_def orEmpty_def toLowerCase_def toLowerChar_ascii)
  have h: "noSignals plainPosting"
    unfolding noSignals_def urgencyLanguage_def contradictoryExperience_def
      guaranteedIncomeClaims_def teamLanguage_def t
    by (simp add: undisclosedCompany_def descriptionUnder100_def knownAtsUrl_def
          descriptionOver500_def plainPosting_def orEmpty_def toLowerCase_def toLowerChar_ascii)
  have s: "salaryMin plainPosting = None" "salaryMax plainPosting = None"
    by (simp_all add: plainPosting_def)
  from C4_rule_engine_score [of plainPosting] h s
  have "legitimacyScore (analyzeWithRules plainPosting) = 70 \<and>
        recommendation (analyzeWithRules plainPosting) = APPROVE \<and>
        isLikelyGhostJob (analyzeWithRules plainPosting) =
          (legitimacyScore (analyzeWithRules plainPosting) < 50)"
    by blast
  then show ?thesis using h s by simp
qed


section \<open>Red-flag scan\<close>

lemma pattern_flag_found:
  assumes "(r, flag) \<in> set RED_FLAG_PATTERNS" "rx_test r (redFlagText j)"
  shows "flag \<in> set (detectRedFlags j)"
proof -
  from assms have "flag \<in> set (map snd (filter (\<lambda>(pattern, flag). rx_test pattern (redFlagText j))
                      RED_FLAG_PATTERNS))"
    by force
  then show ?thesis
    unfolding detectRedFlags_def Let_def redFlagText_def by auto
qed

lemma guaranteed_income_pattern:
  "(lit ''guaranteed income'', ''Guaranteed income claims'') \<in> set RED_FLAG_PATTERNS"
  unfolding RED_FLAG_PATTERNS_def by simp

text \<open>
  C8. The red-flag list is a function of the posting alone. A posting whose title
  and description contain \<open>guaranteed income\<close> in any letter case carries the
  label of that pattern; a posting with a minimum salary above 200000 carries
  the unrealistic-salary flag; a posting whose company name has fewer than three
  characters or is \<open>company\<close> or \<open>confidential\<close> in any letter case carries the
  vague-company flag.
\<close>

theorem C8_red_flag_scan:
  "(containsIgnoringCase (redFlagText j) ''guaranteed income'' \<longrightarrow>
      ''Guaranteed income claims'' \<in> set (detectRedFlags j)) \<and>
   ((\<exists>lo. salaryMin j = Some lo \<and> lo > 200000) \<longrightarrow>
      ''Unrealistic entry-level salary (>$200k)'' \<in> set (detectRedFlags j)) \<and>
   (vagueCompany j \<longrightarrow> ''Vague or confidential company name'' \<in> set (detectRedFlags j))"
proof (intro conjI impI)
  assume "containsIgnoringCase (redFlagText j) ''guaranteed income''"
  then have "rx_test (lit ''guaranteed income'') (redFlagText j)"
    by (rule rx_test_lit_of_contains)
  with guaranteed_income_pattern show "''Guaranteed income claims'' \<in> set (detectRedFlags j)"
    by (rule pattern_flag_found)
next
  assume "\<exists>lo. salaryMin j = Some lo \<and> lo > 200000"
  then obtain lo where "salaryMin j = Some lo" "lo > 200000" by blast
  then show "''Unrealistic entry-level salary (>$200k)'' \<in> set (detectRedFlags j)"
    unfolding detectRedFlags_def Let_def by simp
next
  assume "vagueCompany j"
  then show "''Vague or confidential company name'' \<in> set (detectRedFlags j)"
    unfolding detectRedFlags_def Let_def vagueCompany_def by simp
qed

theorem C8_red_flag_scan_witness:
  "containsIgnoringCase (redFlagText scamPosting) ''guaranteed income'' \<and>
   salaryMin scamPosting = Some 250000 \<and> vagueCompany scamPosting \<and>
   ''Guaranteed income claims'' \<in> set (detectRedFlags scamPosting) \<and>
   ''Unrealistic entry-level salary (>$200k)'' \<in> set (detectRedFlags scamPosting) \<and>
   ''Vague or confidential company name'' \<in> set (detectRedFlags scamPosting)"
proof -
  have a: "containsIgnoringCase (redFlagText scamPosting) ''guaranteed income''"
    by (simp add: containsIgnoringCase_def redFlagText_def scamPosting_def orEmpty_def
          toLowerCase_def toLowerChar_ascii)
  have b: "salaryMin scamPosting = Some 250000" by (simp add: scamPosting_def)
  have c: "vagueCompany scamPosting"
    by (simp add: vagueCompany_def scamPosting_def toLowerCase_def toLowerChar_ascii)
  from b have b': "\<exists>lo. salaryMin scamPosting = Some lo \<and> lo > 200000" by simp
  from C8_red_flag_scan [of scamPosting] a b' c
  have "''Guaranteed income claims'' \<in> set (detectRedFlags scamPosting) \<and>
        ''Unrealistic entry-level salary (>$200k)'' \<in> set (detectRedFlags scamPosting) \<and>
        ''Vague or confidential company name'' \<in> set (detectRedFlags scamPosting)"
    by blast
  with a b c show ?thesis by blast
qed


section \<open>Aggregator\<close>

lemma uniqueFilter_by_key:
  "filter (\<lambda>j. jobKey j = k) (uniqueFilter seen xs) =
     (if k \<in> seen then []
      else (case find (\<lambda>j. jobKey j = k) xs of None \<Rightarrow> [] | Some j \<Rightarrow> [j]))"
proof (induction xs arbitrary: seen)
  case Nil
  then show ?case by simp
next
  case (Cons x xs)
  show ?case
  proof (cases "jobKey x \<in> seen")
    case True
    then show ?thesis using Cons.IH [of seen] by (auto simp: Let_def)
  next
    case False
    then show ?thesis using Cons.IH [of "insert (jobKey x) seen"] by (auto simp: Let_def)
  qed
qed

lemma uniqueFilter_keys:
  "distinct (map jobKey (uniqueFilter seen xs)) \<and>
   set (map jobKey (uniqueFilter seen xs)) = set (map jobKey xs) - seen"
proof (induction xs arbitrary: seen)
  case Nil
  then show ?case by simp
next
  case (Cons x xs)
  show ?case
  proof (cases "jobKey x \<in> seen")
    case True
    then show ?thesis using Cons.IH [of seen] by (auto simp: Let_def)
  next
    case False
    then show ?thesis using Cons.IH [of "insert (jobKey x) seen"] by (auto simp: Let_def)
  qed
qed

lemma uniqueFilter_subset: "set (uniqueFilter seen xs) \<subseteq> set xs"
proof (induction xs arbitrary: seen)
  case Nil
  then show ?case by simp
next
  case (Cons x xs)
  show ?case
    using Cons.IH [of seen] Cons.IH [of "insert (jobKey x) seen"] by (auto simp: Let_def)
qed

text \<open>
  What the filter does in terms of its key, the joined text: two postings with
  equal lower-cased company and equal lower-cased title have the same key whatever
  their URLs are; for every key the output holds exactly the first posting of the
  concatenation with that key and no later one; the keys of the output are
  distinct and are the keys of the input.
\<close>

lemma first_posting_per_joined_key:
  assumes "scrapeFault env = None"
  shows "\<exists>out. scrapeAllSources env = Inr out \<and>
     (\<forall>a b. toLowerCase (company a) = toLowerCase (company b) \<and>
            toLowerCase (title a) = toLowerCase (title b) \<longrightarrow> jobKey a = jobKey b) \<and>
     (\<forall>k. filter (\<lambda>j. jobKey j = k) out =
            (case find (\<lambda>j. jobKey j = k) (allJobs env) of None \<Rightarrow> [] | Some j \<Rightarrow> [j])) \<and>
     distinct (map jobKey out) \<and>
     set (map jobKey out) = set (map jobKey (allJobs env)) \<and>
     set out \<subseteq> set (allJobs env)"
proof -
  have "scrapeAllSources env = Inr (uniqueFilter {} (allJobs env))"
    using assms by (simp add: scrapeAllSources_def)
  moreover have "\<forall>a b. toLowerCase (company a) = toLowerCase (company b) \<and>
            toLowerCase (title a) = toLowerCase (title b) \<longrightarrow> jobKey a = jobKey b"
    by (simp add: jobKey_def)
  moreover have "\<forall>k. filter (\<lambda>j. jobKey j = k) (uniqueFilter {} (allJobs env)) =
            (case find (\<lambda>j. jobKey j = k) (allJobs env) of None \<Rightarrow> [] | Some j \<Rightarrow> [j])"
    by (simp add: uniqueFilter_by_key)
  moreover have "distinct (map jobKey (uniqueFilter {} (allJobs env)))"
    using uniqueFilter_keys [of "{}" "allJobs env"] by blast
  moreover have "set (map jobKey (uniqueFilter {} (allJobs env))) = set (map jobKey (allJobs env))"
    using uniqueFilter_keys [of "{}" "allJobs env"] by simp
  moreover have "set (uniqueFilter {} (allJobs env)) \<subseteq> set (allJobs env)"
    by (rule uniqueFilter_subset)
  ultimately show ?thesis by blast
qed

lemma first_posting_per_joined_key_example:
  "scrapeFault crossPostEnv = None \<and>
   allJobs crossPostEnv = [juniorDeveloper, juniorDeveloperCrossPost] \<and>
   applyUrl juniorDeveloper \<noteq> applyUrl juniorDeveloperCrossPost \<and>
   (\<exists>out. scrapeAllSources crossPostEnv = Inr out \<and>
      filter (\<lambda>j. jobKey j = jobKey juniorDeveloperCrossPost) out = [juniorDeveloper])"
proof -
  have f: "scrapeFault crossPostEnv = None"
    by (simp add: crossPostEnv_def quietEnv_def)
  have a: "allJobs crossPostEnv = [juniorDeveloper, juniorDeveloperCrossPost]"
    by (simp add: allJobs_def crossPostEnv_def quietEnv_def)
  have u: "applyUrl juniorDeveloper \<noteq> applyUrl juniorDeveloperCrossPost"
    by (simp add: juniorDeveloper_def juniorDeveloperCrossPost_def)
  have k: "jobKey juniorDeveloper = jobKey juniorDeveloperCrossPost"
    by (simp add: jobKey_def juniorDeveloper_def juniorDeveloperCrossPost_def
          toLowerCase_def toLowerChar_ascii)
  from first_posting_per_joined_key [OF f] obtain out
    where o: "scrapeAllSources crossPostEnv = Inr out"
      and e: "\<forall>k. filter (\<lambda>j. jobKey j = k) out =
            (case find (\<lambda>j. jobKey j = k) (allJobs crossPostEnv) of
               None \<Rightarrow> [] | Some j \<Rightarrow> [j])"
    by blast
  from e have "filter (\<lambda>j. jobKey j = jobKey juniorDeveloperCrossPost) out = [juniorDeveloper]"
    by (simp add: a k)
  with f a u o show ?thesis by blast
qed


text \<open>
  The key is one text, company and title joined by a hyphen, so postings that
  differ in company and in title can have the same key when the hyphen falls
  elsewhere.
\<close>

lemma jobKey_joined_text:
  "jobKey (j\<lparr>company := ''Coca-Cola'', title := ''Engineer''\<rparr>) =
   jobKey (j\<lparr>company := ''Coca'', title := ''Cola-Engineer''\<rparr>)"
  by (simp add: jobKey_def toLowerCase_def toLowerChar_ascii)

text \<open>
  C7, at three postings: an Engineer at Coca-Cola from the first source, and a
  Cola-Engineer at Coca from two later sources under different apply URLs. The
  comment of the filter says that it deduplicates by the combination of company
  and title. The two later postings have the same lower-cased company and title
  as each other and not as the first; all three have the key
  \<open>coca-cola-engineer\<close>. The output is the first posting alone: of the two
  postings of the pair (coca, cola-engineer) not the first one but none survives,
  and the output holds no posting for that pair.
\<close>

theorem C7_distinct_pair_is_dropped:
  "scrapeFault hyphenEnv = None \<and>
   allJobs hyphenEnv = [cocaColaEngineer, colaEngineerAtCoca, colaEngineerAtCocaRepost] \<and>
   (toLowerCase (company colaEngineerAtCoca), toLowerCase (title colaEngineerAtCoca)) =
     (''coca'', ''cola-engineer'') \<and>
   (toLowerCase (company colaEngineerAtCocaRepost), toLowerCase (title colaEngineerAtCocaRepost)) =
     (''coca'', ''cola-engineer'') \<and>
   (toLowerCase (company cocaColaEngineer), toLowerCase (title cocaColaEngineer)) =
     (''coca-cola'', ''engineer'') \<and>
   applyUrl colaEngineerAtCoca \<noteq> applyUrl colaEngineerAtCocaRepost \<and>
   jobKey cocaColaEngineer = ''coca-cola-engineer'' \<and>
   jobKey colaEngineerAtCoca = ''coca-cola-engineer'' \<and>
   scrapeAllSources hyphenEnv = Inr [cocaColaEngineer] \<and>
   colaEngineerAtCoca \<notin> set [cocaColaEngineer] \<and>
   filter (\<lambda>j. (toLowerCase (company j), toLowerCase (title j)) = (''coca'', ''cola-engineer''))
     [cocaColaEngineer] = []"
proof -
  have f: "scrapeFault hyphenEnv = None"
    by (simp add: hyphenEnv_def quietEnv_def)
  have a: "allJobs hyphenEnv = [cocaColaEngineer, colaEngineerAtCoca, colaEngineerAtCocaRepost]"
    by (simp add: allJobs_def hyphenEnv_def quietEnv_def)
  have p1: "(toLowerCase (company colaEngineerAtCoca), toLowerCase (title colaEngineerAtCoca)) =
     (''coca'', ''cola-engineer'')"
    by (simp add: colaEngineerAtCoca_def toLowerCase_def toLowerChar_ascii)
  have p2: "(toLowerCase (company colaEngineerAtCocaRepost),
             toLowerCase (title colaEngineerAtCocaRepost)) = (''coca'', ''cola-engineer'')"
    by (simp add: colaEngineerAtCocaRepost_def colaEngineerAtCoca_def toLowerCase_def
          toLowerChar_ascii)
  have p3: "(toLowerCase (company cocaColaEngineer), toLowerCase (title cocaColaEngineer)) =
     (''coca-cola'', ''engineer'')"
    by (simp add: cocaColaEngineer_def toLowerCase_def toLowerChar_ascii)
  have u: "applyUrl colaEngineerAtCoca \<noteq> applyUrl colaEngineerAtCocaRepost"
    by (simp add: colaEngineerAtCocaRepost_def colaEngineerAtCoca_def)
  have k1: "jobKey cocaColaEngineer = ''coca-cola-engineer''"
    using p3 by (simp add: jobKey_def)
  have k2: "jobKey colaEngineerAtCoca = ''coca-cola-engineer''"
    using p1 by (simp add: jobKey_def)
  have k3: "jobKey colaEngineerAtCocaRepost = ''coca-cola-engineer''"
    using p2 by (simp add: jobKey_def)
  have o: "scrapeAllSources hyphenEnv = Inr [cocaColaEngineer]"
    by (simp add: scrapeAllSources_def f a k1 k2 k3)
  have n: "colaEngineerAtCoca \<notin> set [cocaColaEngineer]"
    by (simp add: colaEngineerAtCoca_def cocaColaEngineer_def)
  have e: "filter (\<lambda>j. (toLowerCase (company j), toLowerCase (title j)) =
                       (''coca'', ''cola-engineer'')) [cocaColaEngineer] = []"
    using p3 by simp
  from f a p1 p2 p3 u k1 k2 o n e show ?thesis by (intro conjI)
qed

section \<open>Public listing\<close>

lemma publicListingWhere_age:
  "publicListingWhere (now - 48 * 60 * 60 * 1000) r =
     (verification_status (snd r) = VERIFIED \<and>
      (\<exists>age. ageAt now r = Some age \<and> age \<le> hours 48))"
  by (cases "last_verified_at (snd r)")
     (auto simp: publicListingWhere_def ageAt_def hours_def)

lemma set_listingQuery:
  "set (listingQuery limit now rows) \<subseteq>
     {r \<in> set rows. publicListingWhere (now - 48 * 60 * 60 * 1000) r}"
proof -
  have "set (listingQuery limit now rows) \<subseteq>
          set (newestFirst (filter (publicListingWhere (now - 48 * 60 * 60 * 1000)) rows))"
    unfolding listingQuery_def Let_def by (rule set_take_subset)
  then show ?thesis by (simp add: newestFirst_def)
qed

lemma set_listingQuery_all:
  assumes "length rows \<le> limit"
  shows "set (listingQuery limit now rows) =
     {r \<in> set rows. publicListingWhere (now - 48 * 60 * 60 * 1000) r}"
proof -
  have "length (newestFirst (filter (publicListingWhere (now - 48 * 60 * 60 * 1000)) rows))
          \<le> length rows"
    by (simp add: newestFirst_def)
  with assms have "listingQuery limit now rows =
      newestFirst (filter (publicListingWhere (now - 48 * 60 * 60 * 1000)) rows)"
    unfolding listingQuery_def Let_def by simp
  then show ?thesis by (simp add: newestFirst_def)
qed

text \<open>
  C5, as the program has it. The comparison of the query is \<open>gte\<close>: a record is
  selected exactly when its status is \<open>VERIFIED\<close> and its last-verified timestamp
  is at most 48 hours old. A record exactly 48 hours old is included; older
  records and records without a timestamp are excluded. The query of the home
  page, the cards that the home page renders from it, and the query of the jobs
  page return selected records only; each returns all of them when the table has
  no more rows than it takes (ten, five, ten thousand); the count of the home
  page is the number of selected records.
\<close>

theorem C5_listing_includes_boundary:
  "publicListingWhere (now - 48 * 60 * 60 * 1000) r =
     (verification_status (snd r) = VERIFIED \<and>
      (\<exists>age. ageAt now r = Some age \<and> age \<le> hours 48)) \<and>
   set (homePageJobs now rows) \<subseteq>
     {r \<in> set rows. verification_status (snd r) = VERIFIED \<and>
                     (\<exists>age. ageAt now r = Some age \<and> age \<le> hours 48)} \<and>
   (length rows \<le> 10 \<longrightarrow>
      set (homePageJobs now rows) =
        {r \<in> set rows. verification_status (snd r) = VERIFIED \<and>
                        (\<exists>age. ageAt now r = Some age \<and> age \<le> hours 48)}) \<and>
   homePageCount now rows =
     length (filter (\<lambda>r. verification_status (snd r) = VERIFIED \<and>
                          (\<exists>age. ageAt now r = Some age \<and> age \<le> hours 48)) rows) \<and>
   length (homePageJobs now rows) \<le> 10 \<and>
   homePageCards now rows = take 5 (homePageJobs now rows) \<and>
   set (homePageCards now rows) \<subseteq>
     {r \<in> set rows. verification_status (snd r) = VERIFIED \<and>
                     (\<exists>age. ageAt now r = Some age \<and> age \<le> hours 48)} \<and>
   (length rows \<le> 5 \<longrightarrow>
      set (homePageCards now rows) =
        {r \<in> set rows. verification_status (snd r) = VERIFIED \<and>
                        (\<exists>age. ageAt now r = Some age \<and> age \<le> hours 48)}) \<and>
   set (jobsPageJobs now rows) \<subseteq>
     {r \<in> set rows. verification_status (snd r) = VERIFIED \<and>
                     (\<exists>age. ageAt now r = Some age \<and> age \<le> hours 48)} \<and>
   (length rows \<le> 10000 \<longrightarrow>
      set (jobsPageJobs now rows) =
        {r \<in> set rows. verification_status (snd r) = VERIFIED \<and>
                        (\<exists>age. ageAt now r = Some age \<and> age \<le> hours 48)})"
proof -
  define E where "E = {r \<in> set rows. verification_status (snd r) = VERIFIED \<and>
                     (\<exists>age. ageAt now r = Some age \<and> age \<le> hours 48)}"
  have q: "set (listingQuery limit now rows) \<subseteq> E" for limit
    using set_listingQuery [of limit now rows]
    unfolding publicListingWhere_age E_def .
  have qa: "length rows \<le> limit \<Longrightarrow> set (listingQuery limit now rows) = E" for limit
    using set_listingQuery_all [of rows limit now]
    unfolding publicListingWhere_age E_def by simp
  have 1: "publicListingWhere (now - 48 * 60 * 60 * 1000) r =
     (verification_status (snd r) = VERIFIED \<and>
      (\<exists>age. ageAt now r = Some age \<and> age \<le> hours 48))"
    by (rule publicListingWhere_age)
  have 2: "set (homePageJobs now rows) \<subseteq> E"
    unfolding homePageJobs_def by (rule q)
  have 3: "length rows \<le> 10 \<longrightarrow> set (homePageJobs now rows) = E"
    unfolding homePageJobs_def using qa [of 10] by simp
  have 4: "homePageCount now rows =
     length (filter (\<lambda>r. verification_status (snd r) = VERIFIED \<and>
                          (\<exists>age. ageAt now r = Some age \<and> age \<le> hours 48)) rows)"
    unfolding homePageCount_def Let_def publicListingWhere_age ..
  have 5: "length (homePageJobs now rows) \<le> 10"
    by (simp add: homePageJobs_def listingQuery_def Let_def)
  have 6: "homePageCards now rows = take 5 (homePageJobs now rows)"
    by (simp add: homePageCards_def)
  have 7: "set (homePageCards now rows) \<subseteq> E"
    using set_take_subset [of 5 "homePageJobs now rows"] 2
    unfolding homePageCards_def by (rule subset_trans)
  have 8: "length rows \<le> 5 \<longrightarrow> set (homePageCards now rows) = E"
  proof
    assume l: "length rows \<le> 5"
    have "length (homePageJobs now rows)
            \<le> length (filter (publicListingWhere (now - 48 * 60 * 60 * 1000)) rows)"
      by (simp add: homePageJobs_def listingQuery_def Let_def newestFirst_def)
    also have "\<dots> \<le> length rows" by (rule length_filter_le)
    finally have "length (homePageJobs now rows) \<le> length rows" .
    with l have "homePageCards now rows = homePageJobs now rows"
      by (simp add: homePageCards_def)
    moreover from l 3 have "set (homePageJobs now rows) = E" by simp
    ultimately show "set (homePageCards now rows) = E" by simp
  qed
  have 9: "set (jobsPageJobs now rows) \<subseteq> E"
    unfolding jobsPageJobs_def by (rule q)
  have 10: "length rows \<le> 10000 \<longrightarrow> set (jobsPageJobs now rows) = E"
    unfolding jobsPageJobs_def using qa [of 10000] by simp
  from 1 2 3 4 5 6 7 8 9 10 show ?thesis unfolding E_def by (intro conjI)
qed

theorem C5_listing_includes_boundary_witness:
  "length [boundaryRecord] \<le> 5 \<and>
   set (homePageJobs boundaryNow [boundaryRecord]) = {boundaryRecord} \<and>
   set (homePageCards boundaryNow [boundaryRecord]) = {boundaryRecord} \<and>
   set (jobsPageJobs boundaryNow [boundaryRecord]) = {boundaryRecord} \<and>
   homePageCount boundaryNow [boundaryRecord] = 1"
proof -
  have p: "verification_status (snd boundaryRecord) = VERIFIED \<and>
           (\<exists>age. ageAt boundaryNow boundaryRecord = Some age \<and> age \<le> hours 48)"
    by (simp add: ageAt_def boundaryRecord_def boundaryNow_def hours_def)
  have e: "{r \<in> set [boundaryRecord]. verification_status (snd r) = VERIFIED \<and>
             (\<exists>age. ageAt boundaryNow r = Some age \<and> age \<le> hours 48)} = {boundaryRecord}"
    using p by auto
  have l5: "length [boundaryRecord] \<le> 5" and l10: "length [boundaryRecord] \<le> 10"
    and l4: "length [boundaryRecord] \<le> 10000"
    by simp_all
  note t = C5_listing_includes_boundary [of boundaryNow boundaryRecord "[boundaryRecord]"]
  note t3 = t [THEN conjunct2, THEN conjunct2, THEN conjunct1]
  note t4 = t [THEN conjunct2, THEN conjunct2, THEN conjunct2, THEN conjunct1]
  note t8 = t [THEN conjunct2, THEN conjunct2, THEN conjunct2, THEN conjunct2, THEN conjunct2,
               THEN conjunct2, THEN conjunct2, THEN conjunct1]
  note t10 = t [THEN conjunct2, THEN conjunct2, THEN conjunct2, THEN conjunct2, THEN conjunct2,
               THEN conjunct2, THEN conjunct2, THEN conjunct2, THEN conjunct2]
  from t3 [THEN mp, OF l10] have a: "set (homePageJobs boundaryNow [boundaryRecord]) = {boundaryRecord}"
    unfolding e .
  from t8 [THEN mp, OF l5] have b: "set (homePageCards boundaryNow [boundaryRecord]) = {boundaryRecord}"
    unfolding e .
  from t10 [THEN mp, OF l4] have c: "set (jobsPageJobs boundaryNow [boundaryRecord]) = {boundaryRecord}"
    unfolding e .
  from t4 have "homePageCount boundaryNow [boundaryRecord] =
          length (filter (\<lambda>r. verification_status (snd r) = VERIFIED \<and>
             (\<exists>age. ageAt boundaryNow r = Some age \<and> age \<le> hours 48)) [boundaryRecord])" .
  also have "\<dots> = 1" using p by simp
  finally have d: "homePageCount boundaryNow [boundaryRecord] = 1" .
  from l5 a b c d show ?thesis by (intro conjI)
qed

text \<open>
  The claim as stated, with a strict comparison, fails at a record verified
  exactly 48 hours before now: its age is not less than 48 hours, and the query
  of the home page, the cards rendered from it, the count and the query of the
  jobs page all select it.
\<close>

theorem C5_strict_boundary_counterexample:
  "verification_status (snd boundaryRecord) = VERIFIED \<and>
   ageAt boundaryNow boundaryRecord = Some (hours 48) \<and>
   \<not> (hours 48 < hours 48) \<and>
   publicListingWhere (boundaryNow - 48 * 60 * 60 * 1000) boundaryRecord \<and>
   homePageJobs boundaryNow [boundaryRecord] = [boundaryRecord] \<and>
   homePageCards boundaryNow [boundaryRecord] = [boundaryRecord] \<and>
   jobsPageJobs boundaryNow [boundaryRecord] = [boundaryRecord] \<and>
   homePageCount boundaryNow [boundaryRecord] = 1"
  by (simp add: boundaryRecord_def boundaryNow_def ageAt_def hours_def homePageJobs_def
        homePageCards_def jobsPageJobs_def homePageCount_def listingQuery_def newestFirst_def
        publicListingWhere_def)

section \<open>Pipeline: the stages\<close>

lemma fold_insert_urls:
  "fold (\<lambda>j urls. insert (source_url (snd j)) (insert (apply_url (snd j)) urls)) rows S =
     S \<union> storedUrls rows"
proof (induction rows arbitrary: S)
  case Nil
  then show ?case by (simp add: storedUrls_def)
next
  case (Cons r rows)
  show ?case by (simp add: Cons.IH) (auto simp: storedUrls_def)
qed

lemma existingUrls_eq:
  "fst (loadExistingUrls env w errs) =
     (if existingSelectFault env = None then storedUrls (db w) else {})"
  by (cases "existingSelectFault env")
     (auto simp: loadExistingUrls_def dbSelect_def fold_insert_urls split: DbFault.splits)

lemma existingUrlsOf_eq:
  "existingUrlsOf env w = (if existingSelectFault env = None then storedUrls (db w) else {})"
  by (simp add: existingUrlsOf_def existingUrls_eq)

lemma existingUrls_stage:
  "db w' = db w \<Longrightarrow> fst (loadExistingUrls env w' errs) = existingUrlsOf env w"
  by (simp add: existingUrlsOf_eq existingUrls_eq)

lemma jobs_stage:
  "fst (case scrapeAllSources env of Inl e \<Rightarrow> ([], f e) | Inr scraped \<Rightarrow> (scraped, [])) = jobsOf env"
  by (simp add: jobsOf_def split: sum.splits)

lemma verification_stage:
  "fst (case verifyJobs env xs of Inl e \<Rightarrow> (Map.empty, f e) | Inr results \<Rightarrow> (results, errs)) =
     (case verifyJobs env xs of Inl e \<Rightarrow> Map.empty | Inr results \<Rightarrow> results)"
  by (simp split: sum.splits)

lemma analysis_stage:
  "fst (case analyzeJobs env xs of Inl e \<Rightarrow> (Map.empty, f e) | Inr results \<Rightarrow> (results, errs)) =
     (case analyzeJobs env xs of Inl e \<Rightarrow> Map.empty | Inr results \<Rightarrow> results)"
  by (simp split: sum.splits)

lemma verificationResultsOf_eq:
  "verificationResultsOf env w j =
     (if verifyFault env = None \<and> j \<in> set (newJobsOf env w) then Some (verifyJob env j) else None)"
  by (cases "verifyFault env")
     (auto simp: verificationResultsOf_def verifyJobs_def map_of_map_restrict restrict_map_def)

lemma aiResultsOf_eq:
  "aiResultsOf env w j =
     (if analyzeFault env = None \<and> j \<in> set (validJobsOf env w)
      then Some (analyzeJobWithAI env j) else None)"
  by (cases "analyzeFault env")
     (auto simp: aiResultsOf_def analyzeJobs_def map_of_map_restrict restrict_map_def)

lemma stages_empty:
  "jobsOf env = [] \<Longrightarrow> newJobsOf env w = []"
  "newJobsOf env w = [] \<Longrightarrow> validJobsOf env w = []"
  "validJobsOf env w = [] \<Longrightarrow> approvedJobsOf env w = []"
  by (simp_all add: newJobsOf_def validJobsOf_def approvedJobsOf_def scoredJobsOf_def)

lemma insertApproved_Nil: "insertApproved env [] st = st"
  by (simp add: insertApproved_def)

lemma insertApproved_Cons:
  "insertApproved env (item # items) st = insertApproved env items (insertOne env item st)"
  by (simp add: insertApproved_def)

text \<open>The whole run in terms of the stages; only the error texts stay implicit.\<close>

lemma runPipeline_stages:
  "\<exists>errs0 w2 errs.
     insertApproved env (approvedJobsOf env w) (w\<lparr>ticks := Suc (ticks w)\<rparr>, 0, errs0) =
       (w2, addedCount (fst (runPipeline env w)), errs) \<and>
     snd (runPipeline env w) = w2\<lparr>ticks := Suc (ticks w2)\<rparr> \<and>
     errors (fst (runPipeline env w)) = errs \<and>
     scrapedCount (fst (runPipeline env w)) = int (length (jobsOf env)) \<and>
     verifiedCount (fst (runPipeline env w)) = int (length (validJobsOf env w)) \<and>
     skippedCount (fst (runPipeline env w)) =
       int (length (jobsOf env)) - int (length (newJobsOf env w)) \<and>
     failedCount (fst (runPipeline env w)) =
       int (length (newJobsOf env w)) - int (length (validJobsOf env w))
       + (int (length (approvedJobsOf env w)) - addedCount (fst (runPipeline env w))) \<and>
     (scrapeFault env = None \<and> (\<forall>e. existingSelectFault env \<noteq> Some (Threw e)) \<and>
      verifyFault env = None \<and> analyzeFault env = None \<longrightarrow> errs0 = [])"
proof -
  define w1 where "w1 = w\<lparr>ticks := Suc (ticks w)\<rparr>"
  have rc: "readClock env w = (clock env (ticks w), w1)"
    by (simp add: readClock_def w1_def)
  have dbw1: "db w1 = db w" by (simp add: w1_def)
  define sc where "sc = (case scrapeAllSources env of
      Inl e \<Rightarrow> ([], [''Scraping error: '' @ e]) | Inr scraped \<Rightarrow> (scraped, []))"
  have j: "fst sc = jobsOf env" unfolding sc_def by (rule jobs_stage)
  define ld where "ld = loadExistingUrls env w1 (snd sc)"
  have u: "fst ld = existingUrlsOf env w"
    unfolding ld_def using dbw1 by (rule existingUrls_stage)
  define vr where "vr = (case verifyJobs env (newJobsOf env w) of
      Inl e \<Rightarrow> (Map.empty, snd ld @ [''Verification error: '' @ e])
    | Inr results \<Rightarrow> (results, snd ld))"
  have v: "fst vr = verificationResultsOf env w"
    unfolding vr_def verificationResultsOf_def by (rule verification_stage)
  define ar where "ar = (case analyzeJobs env (validJobsOf env w) of
      Inl e \<Rightarrow> (Map.empty, snd vr @ [''AI analysis error: '' @ e])
    | Inr results \<Rightarrow> (results, snd vr))"
  have a: "fst ar = aiResultsOf env w"
    unfolding ar_def aiResultsOf_def by (rule analysis_stage)
  have n: "filter (isNewJob (fst ld)) (jobsOf env) = newJobsOf env w"
    by (simp add: newJobsOf_def u)
  have vl: "filter (passedVerification (fst vr)) (newJobsOf env w) = validJobsOf env w"
    by (simp add: validJobsOf_def v)
  have ap: "filter isApproved (map (combine (fst vr) (fst ar)) (validJobsOf env w)) =
              approvedJobsOf env w"
    by (simp add: approvedJobsOf_def scoredJobsOf_def v a)
  have apl: "length (filter (isApproved \<circ> combine (fst vr) (fst ar)) (validJobsOf env w)) =
              length (approvedJobsOf env w)"
    by (simp add: ap [symmetric])
  have q1: "scrapeFault env = None \<Longrightarrow> snd sc = []"
    by (simp add: sc_def scrapeAllSources_def)
  have q2: "\<forall>e. existingSelectFault env \<noteq> Some (Threw e) \<Longrightarrow> snd ld = snd sc"
    by (cases "existingSelectFault env")
       (auto simp: ld_def loadExistingUrls_def dbSelect_def split: DbFault.splits)
  have q3: "verifyFault env = None \<Longrightarrow> snd vr = snd ld"
    by (simp add: vr_def verifyJobs_def)
  have q4: "analyzeFault env = None \<Longrightarrow> snd ar = snd vr"
    by (simp add: ar_def analyzeJobs_def)
  have unfold: "runPipeline env w =
     (if length (jobsOf env) = 0 then earlyResult env w1 (clock env (ticks w)) 0 0 0 (snd sc)
      else if length (newJobsOf env w) = 0
      then earlyResult env w1 (clock env (ticks w)) (int (length (jobsOf env)))
             (int (length (jobsOf env)) - int (length (newJobsOf env w))) 0 (snd ld)
      else if length (validJobsOf env w) = 0
      then earlyResult env w1 (clock env (ticks w)) (int (length (jobsOf env)))
             (int (length (jobsOf env)) - int (length (newJobsOf env w)))
             (int (length (newJobsOf env w))) (snd vr)
      else (case insertApproved env (approvedJobsOf env w) (w1, 0, snd ar) of
             (w2, added, errs5) \<Rightarrow>
               (case readClock env w2 of
                  (t, w3) \<Rightarrow>
                    (\<lparr>scrapedCount = int (length (jobsOf env)),
                      verifiedCount = int (length (validJobsOf env w)),
                      addedCount = added,
                      skippedCount = int (length (jobsOf env)) - int (length (newJobsOf env w)),
                      failedCount = int (length (newJobsOf env w)) - int (length (validJobsOf env w))
                                    + (int (length (approvedJobsOf env w)) - added),
                      duration = t - clock env (ticks w),
                      errors = errs5\<rparr>, w3))))"
    by (simp add: runPipeline_def rc Let_def case_prod_beta
          sc_def [symmetric] j ld_def [symmetric] n vr_def [symmetric] vl ar_def [symmetric] ap
          apl del: filter_map)
  show ?thesis
  proof (cases "jobsOf env = []")
    case True
    then have "approvedJobsOf env w = []" "newJobsOf env w = []" "validJobsOf env w = []"
      by (simp_all add: stages_empty)
    then show ?thesis
      unfolding unfold using True q1
      by (simp add: earlyResult_def readClock_def insertApproved_Nil w1_def)
  next
    case j0: False
    show ?thesis
    proof (cases "newJobsOf env w = []")
      case True
      then have "approvedJobsOf env w = []" "validJobsOf env w = []"
        by (simp_all add: stages_empty)
      then show ?thesis
        unfolding unfold using True j0 q1 q2
        by (simp add: earlyResult_def readClock_def insertApproved_Nil w1_def)
    next
      case n0: False
      show ?thesis
      proof (cases "validJobsOf env w = []")
        case True
        then have "approvedJobsOf env w = []" by (simp add: stages_empty)
        then show ?thesis
          unfolding unfold using True j0 n0 q1 q2 q3
          by (simp add: earlyResult_def readClock_def insertApproved_Nil w1_def)
      next
        case v0: False
        obtain w2 added errs5 where
          ia: "insertApproved env (approvedJobsOf env w) (w1, 0, snd ar) = (w2, added, errs5)"
          by (cases "insertApproved env (approvedJobsOf env w) (w1, 0, snd ar)") auto
        have r: "runPipeline env w =
            (\<lparr>scrapedCount = int (length (jobsOf env)),
              verifiedCount = int (length (validJobsOf env w)),
              addedCount = added,
              skippedCount = int (length (jobsOf env)) - int (length (newJobsOf env w)),
              failedCount = int (length (newJobsOf env w)) - int (length (validJobsOf env w))
                            + (int (length (approvedJobsOf env w)) - added),
              duration = clock env (ticks w2) - clock env (ticks w),
              errors = errs5\<rparr>, w2\<lparr>ticks := Suc (ticks w2)\<rparr>)"
          unfolding unfold using j0 n0 v0 ia by (simp add: readClock_def)
        show ?thesis
          by (rule exI [of _ "snd ar"], rule exI [of _ w2], rule exI [of _ errs5])
             (simp add: r ia [unfolded w1_def] q1 q2 q3 q4)
      qed
    qed
  qed
qed


section \<open>Pipeline: the insertion loop\<close>

lemma insertOne_effect:
  assumes "insertOne env item (w, a, e) = (w1, a1, e1)"
  defines "stamp \<equiv> (if recommendation (aiAnalysis item) = APPROVE
                      then Some (clock env (ticks w)) else None)"
  shows "ticks w1 = (if recommendation (aiAnalysis item) = APPROVE then Suc (ticks w) else ticks w) \<and>
    ((db w1 = db w \<and> a1 = a \<and>
        (\<forall>v. verification item = Some v \<longrightarrow>
               insertFault env (insertRow (job item) (aiAnalysis item) v stamp) \<noteq> None)) \<or>
     (\<exists>v. verification item = Some v \<and>
           insertFault env (insertRow (job item) (aiAnalysis item) v stamp) = None \<and>
           db w1 = db w @ [(freshId (db w), insertRow (job item) (aiAnalysis item) v stamp)] \<and>
           a1 = a + 1 \<and> e1 = e))"
proof (cases "verification item")
  case None
  with assms(1) show ?thesis
    by (auto simp: insertOne_def readClock_def split: if_splits)
next
  case (Some v)
  show ?thesis
  proof (cases "insertFault env (insertRow (job item) (aiAnalysis item) v stamp)")
    case None
    with Some assms(1) show ?thesis
      unfolding stamp_def
      by (auto simp: insertOne_def readClock_def dbInsert_def split: if_splits)
  next
    case (Some f)
    with \<open>verification item = Some v\<close> assms(1) show ?thesis
      unfolding stamp_def
      by (cases f) (auto simp: insertOne_def readClock_def dbInsert_def split: if_splits)
  qed
qed

lemma rowOf_mono:
  assumes "rowOf env lo hi item r" "lo' \<le> lo" "hi \<le> hi'"
  shows "rowOf env lo' hi' item r"
proof (cases "verification item")
  case None
  with assms(1) show ?thesis by (simp add: rowOf_def)
next
  case (Some v)
  show ?thesis
  proof (cases "recommendation (aiAnalysis item) = APPROVE")
    case True
    with Some assms(1) obtain n where "n \<in> {lo..<hi}"
      "r = insertRow (job item) (aiAnalysis item) v (Some (clock env n))"
      by (auto simp: rowOf_def)
    moreover from this assms(2,3) have "n \<in> {lo'..<hi'}" by simp
    ultimately show ?thesis using Some True by (auto simp: rowOf_def)
  next
    case False
    with Some assms(1) show ?thesis by (simp add: rowOf_def)
  qed
qed

lemma insertApproved_effect:
  assumes "insertApproved env items (w, a, e) = (w', a', e')"
  shows "\<exists>rows. db w' = db w @ rows \<and> a' = a + int (length rows) \<and>
     ticks w \<le> ticks w' \<and> length rows \<le> length items \<and>
     (\<forall>row \<in> set rows. insertFault env (snd row) = None \<and>
        (\<exists>item \<in> set items. rowOf env (ticks w) (ticks w') item (snd row)))"
  using assms
proof (induction items arbitrary: w a e)
  case Nil
  then show ?case by (simp add: insertApproved_Nil)
next
  case (Cons item items)
  obtain w1 a1 e1 where one: "insertOne env item (w, a, e) = (w1, a1, e1)"
    by (cases "insertOne env item (w, a, e)") auto
  with Cons.prems have rest: "insertApproved env items (w1, a1, e1) = (w', a', e')"
    by (simp add: insertApproved_Cons)
  from Cons.IH [OF rest] obtain rows where
    r1: "db w' = db w1 @ rows" and r2: "a' = a1 + int (length rows)" and
    r3: "ticks w1 \<le> ticks w'" and r4: "length rows \<le> length items" and
    r5: "\<forall>row \<in> set rows. insertFault env (snd row) = None \<and>
           (\<exists>item \<in> set items. rowOf env (ticks w1) (ticks w') item (snd row))"
    by blast
  define stamp where "stamp = (if recommendation (aiAnalysis item) = APPROVE
                      then Some (clock env (ticks w)) else None)"
  note eff = insertOne_effect [OF one, folded stamp_def]
  from eff have t1: "ticks w \<le> ticks w1" by (simp split: if_splits)
  have old: "\<forall>row \<in> set rows. insertFault env (snd row) = None \<and>
           (\<exists>it \<in> set (item # items). rowOf env (ticks w) (ticks w') it (snd row))"
  proof
    fix row assume "row \<in> set rows"
    with r5 obtain it where it: "it \<in> set items" "insertFault env (snd row) = None"
      "rowOf env (ticks w1) (ticks w') it (snd row)"
      by blast
    from it(3) t1 have "rowOf env (ticks w) (ticks w') it (snd row)"
      by (rule rowOf_mono) simp
    with it(1,2) show "insertFault env (snd row) = None \<and>
           (\<exists>it \<in> set (item # items). rowOf env (ticks w) (ticks w') it (snd row))"
      by auto
  qed
  from eff consider
    (skip) "db w1 = db w" "a1 = a"
    | (added) v where "verification item = Some v"
        "insertFault env (insertRow (job item) (aiAnalysis item) v stamp) = None"
        "db w1 = db w @ [(freshId (db w), insertRow (job item) (aiAnalysis item) v stamp)]"
        "a1 = a + 1"
    by blast
  then show ?case
  proof cases
    case skip
    from skip r1 have d: "db w' = db w @ rows" by simp
    from skip r2 have c: "a' = a + int (length rows)" by simp
    from t1 r3 have t: "ticks w \<le> ticks w'" by simp
    from r4 have l: "length rows \<le> length (item # items)" by simp
    from d c t l old show ?thesis by blast
  next
    case added
    define row0 where "row0 = (freshId (db w), insertRow (job item) (aiAnalysis item) v stamp)"
    have "rowOf env (ticks w) (ticks w') item (snd row0)"
    proof (cases "recommendation (aiAnalysis item) = APPROVE")
      case True
      with eff have "ticks w1 = Suc (ticks w)" by simp
      with r3 have "ticks w \<in> {ticks w..<ticks w'}" by simp
      with True added(1) show ?thesis
        unfolding row0_def stamp_def rowOf_def by auto
    next
      case False
      with added(1) show ?thesis
        unfolding row0_def stamp_def rowOf_def by simp
    qed
    with added(2) have new: "insertFault env (snd row0) = None \<and>
           (\<exists>it \<in> set (item # items). rowOf env (ticks w) (ticks w') it (snd row0))"
      by (auto simp: row0_def)
    have all: "\<forall>row \<in> set (row0 # rows). insertFault env (snd row) = None \<and>
           (\<exists>it \<in> set (item # items). rowOf env (ticks w) (ticks w') it (snd row))"
      using new old by simp
    from added r1 have d: "db w' = db w @ (row0 # rows)" by (simp add: row0_def)
    from added r2 have c: "a' = a + int (length (row0 # rows))" by simp
    from t1 r3 have t: "ticks w \<le> ticks w'" by simp
    from r4 have l: "length (row0 # rows) \<le> length (item # items)" by simp
    from d c t l all show ?thesis by blast
  qed
qed

lemma insertRow_stamp:
  "insertRow j a v stamp = (insertRow j a v None)\<lparr>last_verified_at := stamp\<rparr>"
  by (simp add: insertRow_def)

lemma stampBlind_insertOk:
  assumes "stampBlind env" "verification item = Some v"
  shows "(insertFault env (insertRow (job item) (aiAnalysis item) v stamp) = None) = insertOk env item"
proof -
  from assms(1) have "insertFault env (insertRow (job item) (aiAnalysis item) v stamp) =
      insertFault env (insertRow (job item) (aiAnalysis item) v None)"
    unfolding stampBlind_def insertRow_stamp [of _ _ _ stamp] by blast
  with assms(2) show ?thesis by (simp add: insertOk_def)
qed

lemma storedUrls_append: "storedUrls (rows @ rows2) = storedUrls rows \<union> storedUrls rows2"
  by (auto simp: storedUrls_def)

lemma insertApproved_stores_accepted:
  assumes "stampBlind env" "insertApproved env items (w, a, e) = (w', a', e')"
  shows "storedUrls (db w) \<subseteq> storedUrls (db w') \<and>
         (\<forall>item \<in> set items. insertOk env item \<longrightarrow> applyUrl (job item) \<in> storedUrls (db w'))"
  using assms(2)
proof (induction items arbitrary: w a e)
  case Nil
  then show ?case by (simp add: insertApproved_Nil)
next
  case (Cons item items)
  obtain w1 a1 e1 where one: "insertOne env item (w, a, e) = (w1, a1, e1)"
    by (cases "insertOne env item (w, a, e)") auto
  with Cons.prems have rest: "insertApproved env items (w1, a1, e1) = (w', a', e')"
    by (simp add: insertApproved_Cons)
  note ih = Cons.IH [OF rest]
  define stamp where "stamp = (if recommendation (aiAnalysis item) = APPROVE
                      then Some (clock env (ticks w)) else None)"
  note eff = insertOne_effect [OF one, folded stamp_def]
  have mono: "storedUrls (db w) \<subseteq> storedUrls (db w1)"
    using eff by (auto simp: storedUrls_append)
  have here: "insertOk env item \<longrightarrow> applyUrl (job item) \<in> storedUrls (db w1)"
  proof
    assume ok: "insertOk env item"
    then obtain v where v: "verification item = Some v"
      by (cases "verification item") (auto simp: insertOk_def)
    with ok have "insertFault env (insertRow (job item) (aiAnalysis item) v stamp) = None"
      using stampBlind_insertOk [OF assms(1) v] by simp
    with eff v have "db w1 = db w @ [(freshId (db w), insertRow (job item) (aiAnalysis item) v stamp)]"
      by auto
    then show "applyUrl (job item) \<in> storedUrls (db w1)"
      by (simp add: storedUrls_append) (simp add: storedUrls_def insertRow_def)
  qed
  from ih mono here show ?case by auto
qed

lemma insertApproved_all_refused:
  assumes "stampBlind env" "\<forall>item \<in> set items. \<not> insertOk env item"
    "insertApproved env items (w, a, e) = (w', a', e')"
  shows "a' = a \<and> db w' = db w"
  using assms(2,3)
proof (induction items arbitrary: w a e)
  case Nil
  then show ?case by (simp add: insertApproved_Nil)
next
  case (Cons item items)
  obtain w1 a1 e1 where one: "insertOne env item (w, a, e) = (w1, a1, e1)"
    by (cases "insertOne env item (w, a, e)") auto
  with Cons.prems have rest: "insertApproved env items (w1, a1, e1) = (w', a', e')"
    by (simp add: insertApproved_Cons)
  from Cons.prems have no: "\<not> insertOk env item" and nos: "\<forall>item \<in> set items. \<not> insertOk env item"
    by simp_all
  define stamp where "stamp = (if recommendation (aiAnalysis item) = APPROVE
                      then Some (clock env (ticks w)) else None)"
  note eff = insertOne_effect [OF one, folded stamp_def]
  have "db w1 = db w \<and> a1 = a"
  proof (rule ccontr)
    assume "\<not> (db w1 = db w \<and> a1 = a)"
    with eff obtain v where v: "verification item = Some v"
      and ok: "insertFault env (insertRow (job item) (aiAnalysis item) v stamp) = None"
      by blast
    from ok have "insertOk env item" using stampBlind_insertOk [OF assms(1) v] by simp
    with no show False by simp
  qed
  with Cons.IH [OF nos rest] show ?case by simp
qed


section \<open>Pipeline: every accepted posting is passed to the store\<close>

lemma insertOne_attempt:
  assumes "insertOne env item (w, a, e) = (w1, a1, e1)" and "verification item = Some v"
  shows "\<exists>r. rowOf env (ticks w) (ticks w1) item r \<and> ticks w \<le> ticks w1 \<and>
     (\<exists>errs. e1 = e @ errs) \<and>
     (insertFault env r = None \<longrightarrow>
        db w1 = db w @ [(freshId (db w), r)] \<and> a1 = a + 1 \<and> e1 = e) \<and>
     (insertFault env r \<noteq> None \<longrightarrow> db w1 = db w \<and> a1 = a \<and>
        (\<exists>m. e1 = e @ [insertErrorFor item m]))"
proof -
  define stamp where "stamp = (if recommendation (aiAnalysis item) = APPROVE
                      then Some (clock env (ticks w)) else None)"
  define r where "r = insertRow (job item) (aiAnalysis item) v stamp"
  note eff = insertOne_effect [OF assms(1), folded stamp_def]
  from eff have t: "ticks w \<le> ticks w1" by (simp split: if_splits)
  have ro: "rowOf env (ticks w) (ticks w1) item r"
  proof (cases "recommendation (aiAnalysis item) = APPROVE")
    case True
    with eff have "ticks w \<in> {ticks w..<ticks w1}" by simp
    with True assms(2) show ?thesis unfolding rowOf_def r_def stamp_def by auto
  next
    case False
    with assms(2) show ?thesis by (simp add: rowOf_def r_def stamp_def)
  qed
  have ok: "insertFault env r = None \<longrightarrow>
        db w1 = db w @ [(freshId (db w), r)] \<and> a1 = a + 1 \<and> e1 = e"
    using eff assms(2) unfolding r_def by auto
  have gr: "\<exists>errs. e1 = e @ errs"
  proof (cases "insertFault env r")
    case None
    with assms show ?thesis
      unfolding r_def stamp_def
      by (auto simp: insertOne_def readClock_def dbInsert_def split: if_splits)
  next
    case (Some f)
    with assms show ?thesis
      unfolding r_def stamp_def
      by (cases f) (auto simp: insertOne_def readClock_def dbInsert_def split: if_splits)
  qed
  have no: "insertFault env r \<noteq> None \<longrightarrow> db w1 = db w \<and> a1 = a \<and>
        (\<exists>m. e1 = e @ [insertErrorFor item m])"
  proof
    assume "insertFault env r \<noteq> None"
    then obtain f where f: "insertFault env r = Some f" by auto
    with assms show "db w1 = db w \<and> a1 = a \<and>
        (\<exists>m. e1 = e @ [insertErrorFor item m])"
      unfolding r_def stamp_def
      by (cases f)
         (auto simp: insertOne_def readClock_def dbInsert_def insertErrorFor_def
            split: if_splits)
  qed
  from ro t gr ok no show ?thesis by (intro exI [of _ r] conjI)
qed

lemma insertApproved_errors:
  assumes "insertApproved env items (w, a, e) = (w', a', e')"
    and "\<forall>item \<in> set items. verification item \<noteq> None"
  shows "\<exists>errs. e' = e @ errs"
  using assms
proof (induction items arbitrary: w a e)
  case Nil
  then show ?case by (simp add: insertApproved_Nil)
next
  case (Cons item items)
  obtain w1 a1 e1 where one: "insertOne env item (w, a, e) = (w1, a1, e1)"
    by (cases "insertOne env item (w, a, e)") auto
  with Cons.prems have rest: "insertApproved env items (w1, a1, e1) = (w', a', e')"
    by (simp add: insertApproved_Cons)
  from Cons.prems obtain v where v: "verification item = Some v" by auto
  from Cons.prems have vs: "\<forall>item \<in> set items. verification item \<noteq> None" by simp
  from insertOne_attempt [OF one v] obtain errs1 where "e1 = e @ errs1" by blast
  moreover from Cons.IH [OF rest vs] obtain errs2 where "e' = e1 @ errs2" by blast
  ultimately show ?case by simp
qed

lemma attempt_mono:
  assumes "\<exists>r. rowOf env lo hi it r \<and>
        (insertFault env r = None \<longrightarrow> r \<in> snd ` set rows) \<and>
        (insertFault env r \<noteq> None \<longrightarrow> (\<exists>m. insertErrorFor it m \<in> set errs))"
    and "lo' \<le> lo" and "set rows \<subseteq> set rows'"
  shows "\<exists>r. rowOf env lo' hi it r \<and>
        (insertFault env r = None \<longrightarrow> r \<in> snd ` set rows') \<and>
        (insertFault env r \<noteq> None \<longrightarrow> (\<exists>m. insertErrorFor it m \<in> set errs))"
proof -
  from assms(1) obtain r where r: "rowOf env lo hi it r"
    and ok: "insertFault env r = None \<longrightarrow> r \<in> snd ` set rows"
    and no: "insertFault env r \<noteq> None \<longrightarrow> (\<exists>m. insertErrorFor it m \<in> set errs)"
    by (elim exE conjE)
  from r assms(2) have r': "rowOf env lo' hi it r" by (rule rowOf_mono) simp
  from ok assms(3) have ok': "insertFault env r = None \<longrightarrow> r \<in> snd ` set rows'"
    by (auto simp: image_iff)
  from r' ok' no show ?thesis by (intro exI [of _ r] conjI)
qed

lemma insertApproved_attempts:
  assumes "insertApproved env items (w, a, e) = (w', a', e')"
    and "\<forall>item \<in> set items. verification item \<noteq> None"
  shows "\<exists>rows. db w' = db w @ rows \<and>
     (\<forall>item \<in> set items. \<exists>r. rowOf env (ticks w) (ticks w') item r \<and>
        (insertFault env r = None \<longrightarrow> r \<in> snd ` set rows) \<and>
        (insertFault env r \<noteq> None \<longrightarrow> (\<exists>m. insertErrorFor item m \<in> set e')))"
  using assms
proof (induction items arbitrary: w a e)
  case Nil
  then show ?case by (simp add: insertApproved_Nil)
next
  case (Cons item items)
  obtain w1 a1 e1 where one: "insertOne env item (w, a, e) = (w1, a1, e1)"
    by (cases "insertOne env item (w, a, e)") auto
  with Cons.prems(1) have rest: "insertApproved env items (w1, a1, e1) = (w', a', e')"
    by (simp add: insertApproved_Cons)
  from Cons.prems(2) obtain v where v: "verification item = Some v" by auto
  from Cons.prems(2) have vs: "\<forall>item \<in> set items. verification item \<noteq> None" by simp
  from insertOne_attempt [OF one v] obtain r0 where
    x: "rowOf env (ticks w) (ticks w1) item r0 \<and> ticks w \<le> ticks w1 \<and>
     (\<exists>errs. e1 = e @ errs) \<and>
     (insertFault env r0 = None \<longrightarrow>
        db w1 = db w @ [(freshId (db w), r0)] \<and> a1 = a + 1 \<and> e1 = e) \<and>
     (insertFault env r0 \<noteq> None \<longrightarrow> db w1 = db w \<and> a1 = a \<and>
        (\<exists>m. e1 = e @ [insertErrorFor item m]))" ..
  note ro = x [THEN conjunct1] and t1 = x [THEN conjunct2, THEN conjunct1]
    and ok = x [THEN conjunct2, THEN conjunct2, THEN conjunct2, THEN conjunct1]
    and no = x [THEN conjunct2, THEN conjunct2, THEN conjunct2, THEN conjunct2]
  from insertApproved_effect [OF rest] have t2: "ticks w1 \<le> ticks w'"
    by (elim exE conjE)
  from insertApproved_errors [OF rest vs] obtain errs2 where e2: "e' = e1 @ errs2" ..
  from Cons.IH [OF rest vs] obtain rows where
    y: "db w' = db w1 @ rows \<and>
     (\<forall>item \<in> set items. \<exists>r. rowOf env (ticks w1) (ticks w') item r \<and>
        (insertFault env r = None \<longrightarrow> r \<in> snd ` set rows) \<and>
        (insertFault env r \<noteq> None \<longrightarrow> (\<exists>m. insertErrorFor item m \<in> set e')))" ..
  note d = y [THEN conjunct1] and r = y [THEN conjunct2]
  define first where "first = (if insertFault env r0 = None then [(freshId (db w), r0)] else [])"
  have d1: "db w1 = db w @ first" using ok no by (simp add: first_def)
  with d have dd: "db w' = db w @ (first @ rows)" by simp
  have h1: "rowOf env (ticks w) (ticks w') item r0"
    using ro by (rule rowOf_mono) (simp_all add: t2)
  have h2: "insertFault env r0 = None \<longrightarrow> r0 \<in> snd ` set (first @ rows)"
    by (simp add: first_def)
  have h3: "insertFault env r0 \<noteq> None \<longrightarrow> (\<exists>m. insertErrorFor item m \<in> set e')"
  proof
    assume "insertFault env r0 \<noteq> None"
    with no have "\<exists>m. e1 = e @ [insertErrorFor item m]" by simp
    then obtain m where "e1 = e @ [insertErrorFor item m]" ..
    with e2 have "insertErrorFor item m \<in> set e'" by simp
    then show "\<exists>m. insertErrorFor item m \<in> set e'" ..
  qed
  have here: "\<exists>r. rowOf env (ticks w) (ticks w') item r \<and>
        (insertFault env r = None \<longrightarrow> r \<in> snd ` set (first @ rows)) \<and>
        (insertFault env r \<noteq> None \<longrightarrow> (\<exists>m. insertErrorFor item m \<in> set e'))"
    using h1 h2 h3 by (intro exI [of _ r0] conjI)
  have all: "\<forall>it \<in> set (item # items). \<exists>r. rowOf env (ticks w) (ticks w') it r \<and>
        (insertFault env r = None \<longrightarrow> r \<in> snd ` set (first @ rows)) \<and>
        (insertFault env r \<noteq> None \<longrightarrow> (\<exists>m. insertErrorFor it m \<in> set e'))"
  proof
    fix it assume "it \<in> set (item # items)"
    then consider "it = item" | "it \<in> set items" by auto
    then show "\<exists>r. rowOf env (ticks w) (ticks w') it r \<and>
        (insertFault env r = None \<longrightarrow> r \<in> snd ` set (first @ rows)) \<and>
        (insertFault env r \<noteq> None \<longrightarrow> (\<exists>m. insertErrorFor it m \<in> set e'))"
    proof cases
      case 1
      with here show ?thesis by simp
    next
      case 2
      with r have "\<exists>r. rowOf env (ticks w1) (ticks w') it r \<and>
        (insertFault env r = None \<longrightarrow> r \<in> snd ` set rows) \<and>
        (insertFault env r \<noteq> None \<longrightarrow> (\<exists>m. insertErrorFor it m \<in> set e'))"
        by (rule bspec)
      then show ?thesis using t1 by (rule attempt_mono) simp
    qed
  qed
  from dd all show ?case by (intro exI [of _ "first @ rows"] conjI)
qed

lemma insertApproved_all_stored:
  assumes "insertApproved env items (w, a, e) = (w', a', e')"
    and "\<forall>item \<in> set items. verification item \<noteq> None"
    and "\<forall>p. insertFault env p = None"
  shows "\<exists>rows. db w' = db w @ rows \<and>
     list_all2 (\<lambda>item row. rowOf env (ticks w) (ticks w') item (snd row)) items rows \<and>
     a' = a + int (length items) \<and> e' = e"
  using assms(1,2)
proof (induction items arbitrary: w a e)
  case Nil
  then show ?case by (simp add: insertApproved_Nil)
next
  case (Cons item items)
  obtain w1 a1 e1 where one: "insertOne env item (w, a, e) = (w1, a1, e1)"
    by (cases "insertOne env item (w, a, e)") auto
  with Cons.prems have rest: "insertApproved env items (w1, a1, e1) = (w', a', e')"
    by (simp add: insertApproved_Cons)
  from Cons.prems obtain v where v: "verification item = Some v" by auto
  from Cons.prems have vs: "\<forall>item \<in> set items. verification item \<noteq> None" by simp
  from insertOne_attempt [OF one v] obtain r0 where
    x: "rowOf env (ticks w) (ticks w1) item r0 \<and> ticks w \<le> ticks w1 \<and>
     (\<exists>errs. e1 = e @ errs) \<and>
     (insertFault env r0 = None \<longrightarrow>
        db w1 = db w @ [(freshId (db w), r0)] \<and> a1 = a + 1 \<and> e1 = e) \<and>
     (insertFault env r0 \<noteq> None \<longrightarrow> db w1 = db w \<and> a1 = a \<and>
        (\<exists>m. e1 = e @ [insertErrorFor item m]))" ..
  note ro = x [THEN conjunct1] and t1 = x [THEN conjunct2, THEN conjunct1]
    and ok0 = x [THEN conjunct2, THEN conjunct2, THEN conjunct2, THEN conjunct1]
  from ok0 assms(3) have ok: "db w1 = db w @ [(freshId (db w), r0)]"
    and a1: "a1 = a + 1" and e1: "e1 = e"
    by simp_all
  from insertApproved_effect [OF rest] have t2: "ticks w1 \<le> ticks w'"
    by (elim exE conjE)
  from Cons.IH [OF rest vs] obtain rows where
    y: "db w' = db w1 @ rows \<and>
      list_all2 (\<lambda>item row. rowOf env (ticks w1) (ticks w') item (snd row)) items rows \<and>
      a' = a1 + int (length items) \<and> e' = e1" ..
  note d = y [THEN conjunct1] and r = y [THEN conjunct2, THEN conjunct1]
    and a2 = y [THEN conjunct2, THEN conjunct2, THEN conjunct1]
    and e2 = y [THEN conjunct2, THEN conjunct2, THEN conjunct2]
  from ro have h: "rowOf env (ticks w) (ticks w') item r0"
    by (rule rowOf_mono) (simp_all add: t2)
  have l: "list_all2 (\<lambda>item row. rowOf env (ticks w) (ticks w') item (snd row)) items rows"
  proof (rule list_all2_mono [OF r])
    fix it row assume "rowOf env (ticks w1) (ticks w') it (snd row)"
    then show "rowOf env (ticks w) (ticks w') it (snd row)"
      using t1 by (rule rowOf_mono) simp
  qed
  from d ok have "db w' = db w @ ((freshId (db w), r0) # rows)" by simp
  moreover from h l have "list_all2 (\<lambda>item row. rowOf env (ticks w) (ticks w') item (snd row))
      (item # items) ((freshId (db w), r0) # rows)"
    by simp
  moreover from a1 a2 have "a' = a + int (length (item # items))" by simp
  moreover from e1 e2 have "e' = e" by simp
  ultimately show ?case by (intro exI [of _ "(freshId (db w), r0) # rows"] conjI)
qed

section \<open>The example posting, stage by stage\<close>

lemma detectRedFlags_juniorDeveloper: "detectRedFlags juniorDeveloper = []"
  by (simp add: detectRedFlags_def RED_FLAG_PATTERNS_def juniorDeveloper_def digits1_def
        digits3_def dotStar_def canonicalize_ascii toLowerChar_ascii toLowerCase_def
        orEmpty_def)

lemma analyzeWithRules_juniorDeveloper:
  "analyzeWithRules juniorDeveloper =
     \<lparr>legitimacyScore = 70, isLikelyGhostJob = False,
      concerns = [''Very short or missing description''],
      positiveSignals = [''Salary range provided''], recommendation = APPROVE,
      reasoning = ''Rule-based analysis score: 70/100. 1 concerns, 1 positive signals.''\<rparr>"
  by (simp add: analyzeWithRules_def ruleSteps_def applyIf_def juniorDeveloper_def
        toLowerChar_ascii toLowerCase_def orEmpty_def showInt_def showNat.simps
        digitChar_def char_of_eq_iff)

lemma acme_not_trusted:
  "\<not> list_ex (\<lambda>trusted. str_includes ''acme.example'' trusted) TRUSTED_DOMAINS"
  by (simp add: TRUSTED_DOMAINS_def)

lemma verifyJob_juniorDeveloper:
  assumes "fetch env HEAD ''https://acme.example/jobs/1'' = Response 200"
    and "hostname env ''https://acme.example/jobs/1'' = Some ''acme.example''"
    and "fetch env HEAD ''https://acme.example'' = Response code"
  shows "verifyJob env juniorDeveloper =
     \<lparr>isValid = (200 \<le> code \<and> code < 400), urlStatus = Some 200, urlAccessible = True,
      companyDomainValid = (200 \<le> code \<and> code < 400), hasRedFlags = False, redFlags = [],
      verdictNotes = ''URL accessible (200); ''
        @ (if 200 \<le> code \<and> code < 400 then ''Company domain valid''
           else ''Company domain invalid'') @ ''; No red flags''\<rparr>"
proof -
  have a: "applyUrl juniorDeveloper = ''https://acme.example/jobs/1''"
    by (simp add: juniorDeveloper_def)
  have c: "checkUrlAccessibility env ''https://acme.example/jobs/1'' =
             \<lparr>accessible = True, status = Some 200\<rparr>"
    by (simp add: checkUrlAccessibility_def assms(1))
  have d: "checkCompanyDomain env ''https://acme.example/jobs/1'' = (200 \<le> code \<and> code < 400)"
    by (simp add: checkCompanyDomain_def extractDomain_def assms(2) stripWww_def
          checkUrlAccessibility_def assms(3) acme_not_trusted)
  have s: "showNat 200 = ''200''"
    by (simp add: showNat.simps digitChar_def char_of_eq_iff)
  show ?thesis
    unfolding verifyJob_def a c d detectRedFlags_juniorDeveloper Let_def
    by (simp add: s)
qed

lemma jobsOf_single:
  assumes "scrapeFault env = None" "allJobs env = [j]"
  shows "jobsOf env = [j]"
  using assms by (simp add: jobsOf_def scrapeAllSources_def)

lemma newJobsOf_unread:
  assumes "existingSelectFault env \<noteq> None"
  shows "newJobsOf env w = jobsOf env"
proof -
  from assms have "existingUrlsOf env w = {}" by (auto simp: existingUrlsOf_eq)
  then show ?thesis by (simp add: newJobsOf_def isNewJob_def)
qed

lemma newJobsOf_empty_table:
  assumes "db w = []"
  shows "newJobsOf env w = jobsOf env"
  using assms by (simp add: newJobsOf_def existingUrlsOf_eq isNewJob_def storedUrls_def)

lemma validJobsOf_single:
  assumes "newJobsOf env w = [j]" "verifyFault env = None"
    "urlAccessible (verifyJob env j)" "\<not> hasRedFlags (verifyJob env j)"
  shows "validJobsOf env w = [j]" "verificationResultsOf env w j = Some (verifyJob env j)"
  using assms
  by (simp_all add: validJobsOf_def passedVerification_def verificationResultsOf_eq)

lemma scoredJobsOf_single:
  assumes "validJobsOf env w = [j]" "verificationResultsOf env w j = Some v"
  shows "scoredJobsOf env w =
     [\<lparr>job = j, verification = Some v,
       aiAnalysis = (if analyzeFault env = None then analyzeJobWithAI env j else defaultAnalysis)\<rparr>]"
  using assms by (simp add: scoredJobsOf_def combine_def aiResultsOf_eq)


section \<open>Runs with one accepted posting, or none\<close>

lemma run_none_approved:
  assumes "approvedJobsOf env w = []"
  shows "addedCount (fst (runPipeline env w)) = 0 \<and> db (snd (runPipeline env w)) = db w"
proof -
  from runPipeline_stages [of env w] obtain errs0 w2 errs where
    ia: "insertApproved env (approvedJobsOf env w) (w\<lparr>ticks := Suc (ticks w)\<rparr>, 0, errs0) =
           (w2, addedCount (fst (runPipeline env w)), errs)"
    and sw: "snd (runPipeline env w) = w2\<lparr>ticks := Suc (ticks w2)\<rparr>"
    by blast
  from ia assms have "w2 = w\<lparr>ticks := Suc (ticks w)\<rparr>" "addedCount (fst (runPipeline env w)) = 0"
    by (simp_all add: insertApproved_Nil)
  with sw show ?thesis by simp
qed

lemma run_single_added:
  assumes "approvedJobsOf env w = [item]" "verification item = Some v"
    and "stamp = (if recommendation (aiAnalysis item) = APPROVE
                  then Some (clock env (Suc (ticks w))) else None)"
    and "insertFault env (insertRow (job item) (aiAnalysis item) v stamp) = None"
  shows "addedCount (fst (runPipeline env w)) = 1 \<and>
         db (snd (runPipeline env w)) =
           db w @ [(freshId (db w), insertRow (job item) (aiAnalysis item) v stamp)]"
proof -
  from runPipeline_stages [of env w] obtain errs0 w2 errs where
    ia: "insertApproved env (approvedJobsOf env w) (w\<lparr>ticks := Suc (ticks w)\<rparr>, 0, errs0) =
           (w2, addedCount (fst (runPipeline env w)), errs)"
    and sw: "snd (runPipeline env w) = w2\<lparr>ticks := Suc (ticks w2)\<rparr>"
    by blast
  from ia assms(1) have one:
    "insertOne env item (w\<lparr>ticks := Suc (ticks w)\<rparr>, 0, errs0) =
       (w2, addedCount (fst (runPipeline env w)), errs)"
    by (simp add: insertApproved_Cons insertApproved_Nil)
  from insertOne_effect [OF one] assms(2,3,4)
  have "db w2 = db w @ [(freshId (db w), insertRow (job item) (aiAnalysis item) v stamp)] \<and>
        addedCount (fst (runPipeline env w)) = 1"
    by auto
  with sw show ?thesis by simp
qed

lemma run_counts:
  "scrapedCount (fst (runPipeline env w)) = int (length (jobsOf env)) \<and>
   verifiedCount (fst (runPipeline env w)) = int (length (validJobsOf env w)) \<and>
   skippedCount (fst (runPipeline env w)) =
     int (length (jobsOf env)) - int (length (newJobsOf env w)) \<and>
   failedCount (fst (runPipeline env w)) =
     int (length (newJobsOf env w)) - int (length (validJobsOf env w))
     + (int (length (approvedJobsOf env w)) - addedCount (fst (runPipeline env w)))"
  using runPipeline_stages [of env w] by blast

lemma run_rows:
  "\<exists>rows. db (snd (runPipeline env w)) = db w @ rows \<and>
     addedCount (fst (runPipeline env w)) = int (length rows) \<and>
     length rows \<le> length (approvedJobsOf env w) \<and>
     ticks w < ticks (snd (runPipeline env w)) \<and>
     (\<forall>row \<in> set rows. insertFault env (snd row) = None \<and>
        (\<exists>item \<in> set (approvedJobsOf env w).
           rowOf env (ticks w) (ticks (snd (runPipeline env w))) item (snd row)))"
proof -
  from runPipeline_stages [of env w] obtain errs0 w2 errs where
    ia: "insertApproved env (approvedJobsOf env w) (w\<lparr>ticks := Suc (ticks w)\<rparr>, 0, errs0) =
           (w2, addedCount (fst (runPipeline env w)), errs)"
    and sw: "snd (runPipeline env w) = w2\<lparr>ticks := Suc (ticks w2)\<rparr>"
    by blast
  from insertApproved_effect [OF ia] obtain rows where
    r1: "db w2 = db w @ rows" and
    r2: "addedCount (fst (runPipeline env w)) = int (length rows)" and
    r3: "Suc (ticks w) \<le> ticks w2" and
    r4: "length rows \<le> length (approvedJobsOf env w)" and
    r5: "\<forall>row \<in> set rows. insertFault env (snd row) = None \<and>
           (\<exists>item \<in> set (approvedJobsOf env w).
              rowOf env (Suc (ticks w)) (ticks w2) item (snd row))"
    by auto
  have t: "ticks (snd (runPipeline env w)) = Suc (ticks w2)" by (simp add: sw)
  have r5': "\<forall>row \<in> set rows. insertFault env (snd row) = None \<and>
        (\<exists>item \<in> set (approvedJobsOf env w).
           rowOf env (ticks w) (ticks (snd (runPipeline env w))) item (snd row))"
  proof
    fix row assume "row \<in> set rows"
    with r5 obtain item where i: "insertFault env (snd row) = None"
      "item \<in> set (approvedJobsOf env w)"
      "rowOf env (Suc (ticks w)) (ticks w2) item (snd row)"
      by blast
    from i(3) have "rowOf env (ticks w) (ticks (snd (runPipeline env w))) item (snd row)"
      by (rule rowOf_mono) (simp_all add: t)
    with i(1,2) show "insertFault env (snd row) = None \<and>
        (\<exists>item \<in> set (approvedJobsOf env w).
           rowOf env (ticks w) (ticks (snd (runPipeline env w))) item (snd row))"
      by blast
  qed
  from r1 sw have d: "db (snd (runPipeline env w)) = db w @ rows" by simp
  from r3 t have lt: "ticks w < ticks (snd (runPipeline env w))" by simp
  from d r2 r4 lt r5' show ?thesis by blast
qed

section \<open>The example environments\<close>

lemma quiet_fields:
  "scrapeFault quietEnv = None" "verifyFault quietEnv = None" "analyzeFault quietEnv = None"
  "existingSelectFault quietEnv = None" "staleSelectFault quietEnv = None"
  "insertFault quietEnv = (\<lambda>p. None)" "fetch quietEnv = (\<lambda>m u. Response 200)"
  "hostname quietEnv = (\<lambda>u. Some ''acme.example'')" "openAI quietEnv = (\<lambda>j. None)"
  "anthropic quietEnv = (\<lambda>j. None)" "clock quietEnv = (\<lambda>n. 1000000000 + int n)"
  "toISOString quietEnv = showInt"
  "remoteOK quietEnv = []" "remotive quietEnv = []" "arbeitnow quietEnv = []"
  "himalayas quietEnv = []" "jobicy quietEnv = []" "weWorkRemotely quietEnv = []"
  "greenhouseAll quietEnv = []" "leverAll quietEnv = []"
  by (simp_all add: quietEnv_def)

lemma approve_jobs: "jobsOf approveEnv = [juniorDeveloper]"
  by (rule jobsOf_single) (simp_all add: approveEnv_def allJobs_def quiet_fields)

lemma approve_verdict:
  "verifyJob approveEnv juniorDeveloper =
     \<lparr>isValid = True, urlStatus = Some 200, urlAccessible = True,
      companyDomainValid = True, hasRedFlags = False, redFlags = [],
      verdictNotes = ''URL accessible (200); Company domain valid; No red flags''\<rparr>"
  using verifyJob_juniorDeveloper [of approveEnv 200]
  by (simp add: approveEnv_def quiet_fields)

lemma domain_verdict:
  "verifyJob domainEnv juniorDeveloper =
     \<lparr>isValid = False, urlStatus = Some 200, urlAccessible = True,
      companyDomainValid = False, hasRedFlags = False, redFlags = [],
      verdictNotes = ''URL accessible (200); Company domain invalid; No red flags''\<rparr>"
  using verifyJob_juniorDeveloper [of domainEnv 404]
  by (simp add: domainEnv_def approveEnv_def quiet_fields)


section \<open>Runs: what is stored for the accepted postings\<close>

lemma passedVerification_iff:
  "passedVerification results j =
     (\<exists>r. results j = Some r \<and> urlAccessible r \<and> \<not> hasRedFlags r)"
  by (cases "results j") (simp_all add: passedVerification_def)

lemma scored_has_verification:
  assumes "item \<in> set (scoredJobsOf env w)"
  shows "verification item \<noteq> None"
proof -
  from assms obtain j where j: "j \<in> set (validJobsOf env w)"
    and i: "item = combine (verificationResultsOf env w) (aiResultsOf env w) j"
    by (auto simp: scoredJobsOf_def)
  from j have "passedVerification (verificationResultsOf env w) j"
    by (simp add: validJobsOf_def)
  then have "verificationResultsOf env w j \<noteq> None"
    by (auto simp: passedVerification_iff)
  with i show ?thesis by (simp add: combine_def)
qed

lemma approved_has_verification:
  "\<forall>item \<in> set (approvedJobsOf env w). verification item \<noteq> None"
  using scored_has_verification [of _ env w] by (simp add: approvedJobsOf_def)

lemma run_stores_accepted:
  "\<exists>rows. db (snd (runPipeline env w)) = db w @ rows \<and>
     addedCount (fst (runPipeline env w)) = int (length rows) \<and>
     (\<forall>row \<in> set rows. \<exists>item \<in> set (approvedJobsOf env w).
        rowOf env (ticks w) (ticks (snd (runPipeline env w))) item (snd row)) \<and>
     (\<forall>item \<in> set (approvedJobsOf env w).
        \<exists>r. rowOf env (ticks w) (ticks (snd (runPipeline env w))) item r \<and>
          (insertFault env r = None \<longrightarrow> r \<in> snd ` set rows) \<and>
          (insertFault env r \<noteq> None \<longrightarrow>
             (\<exists>m. insertErrorFor item m \<in> set (errors (fst (runPipeline env w))))))"
proof -
  from runPipeline_stages [of env w] obtain errs0 w2 errs where
    ia: "insertApproved env (approvedJobsOf env w) (w\<lparr>ticks := Suc (ticks w)\<rparr>, 0, errs0) =
           (w2, addedCount (fst (runPipeline env w)), errs)"
    and sw: "snd (runPipeline env w) = w2\<lparr>ticks := Suc (ticks w2)\<rparr>"
    and er: "errors (fst (runPipeline env w)) = errs"
    by blast
  have t: "ticks (snd (runPipeline env w)) = Suc (ticks w2)" by (simp add: sw)
  from run_rows [of env w] obtain rows where
    x: "db (snd (runPipeline env w)) = db w @ rows \<and>
     addedCount (fst (runPipeline env w)) = int (length rows) \<and>
     length rows \<le> length (approvedJobsOf env w) \<and>
     ticks w < ticks (snd (runPipeline env w)) \<and>
     (\<forall>row \<in> set rows. insertFault env (snd row) = None \<and>
        (\<exists>item \<in> set (approvedJobsOf env w).
           rowOf env (ticks w) (ticks (snd (runPipeline env w))) item (snd row)))" ..
  note d = x [THEN conjunct1] and c = x [THEN conjunct2, THEN conjunct1]
    and r5 = x [THEN conjunct2, THEN conjunct2, THEN conjunct2, THEN conjunct2]
  from insertApproved_attempts [OF ia approved_has_verification] obtain rows2 where
    y: "db w2 = db (w\<lparr>ticks := Suc (ticks w)\<rparr>) @ rows2 \<and>
     (\<forall>item \<in> set (approvedJobsOf env w).
        \<exists>r. rowOf env (ticks (w\<lparr>ticks := Suc (ticks w)\<rparr>)) (ticks w2) item r \<and>
          (insertFault env r = None \<longrightarrow> r \<in> snd ` set rows2) \<and>
          (insertFault env r \<noteq> None \<longrightarrow> (\<exists>m. insertErrorFor item m \<in> set errs)))" ..
  from y [THEN conjunct1] d sw have same: "rows2 = rows" by simp
  have bk: "\<forall>row \<in> set rows. \<exists>item \<in> set (approvedJobsOf env w).
        rowOf env (ticks w) (ticks (snd (runPipeline env w))) item (snd row)"
    using r5 by blast
  have fw: "\<forall>item \<in> set (approvedJobsOf env w).
        \<exists>r. rowOf env (ticks w) (ticks (snd (runPipeline env w))) item r \<and>
          (insertFault env r = None \<longrightarrow> r \<in> snd ` set rows) \<and>
          (insertFault env r \<noteq> None \<longrightarrow>
             (\<exists>m. insertErrorFor item m \<in> set (errors (fst (runPipeline env w)))))"
  proof
    fix item assume "item \<in> set (approvedJobsOf env w)"
    with y [THEN conjunct2] have "\<exists>r. rowOf env (ticks (w\<lparr>ticks := Suc (ticks w)\<rparr>)) (ticks w2) item r \<and>
          (insertFault env r = None \<longrightarrow> r \<in> snd ` set rows2) \<and>
          (insertFault env r \<noteq> None \<longrightarrow> (\<exists>m. insertErrorFor item m \<in> set errs))"
      by (rule bspec)
    then obtain r where z: "rowOf env (ticks (w\<lparr>ticks := Suc (ticks w)\<rparr>)) (ticks w2) item r \<and>
          (insertFault env r = None \<longrightarrow> r \<in> snd ` set rows2) \<and>
          (insertFault env r \<noteq> None \<longrightarrow> (\<exists>m. insertErrorFor item m \<in> set errs))" ..
    from z [THEN conjunct1] have r: "rowOf env (Suc (ticks w)) (ticks w2) item r" by simp
    note ok = z [THEN conjunct2, THEN conjunct1] and no = z [THEN conjunct2, THEN conjunct2]
    from r have "rowOf env (ticks w) (ticks (snd (runPipeline env w))) item r"
      by (rule rowOf_mono) (simp_all add: t)
    with ok no show "\<exists>r. rowOf env (ticks w) (ticks (snd (runPipeline env w))) item r \<and>
          (insertFault env r = None \<longrightarrow> r \<in> snd ` set rows) \<and>
          (insertFault env r \<noteq> None \<longrightarrow>
             (\<exists>m. insertErrorFor item m \<in> set (errors (fst (runPipeline env w)))))"
      unfolding same er by (intro exI [of _ r] conjI)
  qed
  from d c bk fw show ?thesis by (intro exI [of _ rows] conjI)
qed

lemma run_all_stored:
  assumes "\<forall>p. insertFault env p = None"
  shows "\<exists>rows. db (snd (runPipeline env w)) = db w @ rows \<and>
     list_all2 (\<lambda>item row. rowOf env (ticks w) (ticks (snd (runPipeline env w))) item (snd row))
       (approvedJobsOf env w) rows \<and>
     addedCount (fst (runPipeline env w)) = int (length (approvedJobsOf env w)) \<and>
     (scrapeFault env = None \<and> (\<forall>e. existingSelectFault env \<noteq> Some (Threw e)) \<and>
      verifyFault env = None \<and> analyzeFault env = None \<longrightarrow>
        errors (fst (runPipeline env w)) = [])"
proof -
  from runPipeline_stages [of env w] obtain errs0 w2 errs where
    ia: "insertApproved env (approvedJobsOf env w) (w\<lparr>ticks := Suc (ticks w)\<rparr>, 0, errs0) =
           (w2, addedCount (fst (runPipeline env w)), errs)"
    and sw: "snd (runPipeline env w) = w2\<lparr>ticks := Suc (ticks w2)\<rparr>"
    and er: "errors (fst (runPipeline env w)) = errs"
    and q: "scrapeFault env = None \<and> (\<forall>e. existingSelectFault env \<noteq> Some (Threw e)) \<and>
      verifyFault env = None \<and> analyzeFault env = None \<longrightarrow> errs0 = []"
    by blast
  have t: "ticks (snd (runPipeline env w)) = Suc (ticks w2)" by (simp add: sw)
  from insertApproved_all_stored [OF ia approved_has_verification assms] obtain rows where
    y: "db w2 = db (w\<lparr>ticks := Suc (ticks w)\<rparr>) @ rows \<and>
     list_all2 (\<lambda>item row. rowOf env (ticks (w\<lparr>ticks := Suc (ticks w)\<rparr>)) (ticks w2) item (snd row))
       (approvedJobsOf env w) rows \<and>
     addedCount (fst (runPipeline env w)) = 0 + int (length (approvedJobsOf env w)) \<and>
     errs = errs0" ..
  from y [THEN conjunct1] sw have d: "db (snd (runPipeline env w)) = db w @ rows" by simp
  have l: "list_all2 (\<lambda>item row. rowOf env (ticks w) (ticks (snd (runPipeline env w))) item (snd row))
       (approvedJobsOf env w) rows"
  proof (rule list_all2_mono [OF y [THEN conjunct2, THEN conjunct1]])
    fix it row
    assume "rowOf env (ticks (w\<lparr>ticks := Suc (ticks w)\<rparr>)) (ticks w2) it (snd row)"
    then have "rowOf env (Suc (ticks w)) (ticks w2) it (snd row)" by simp
    then show "rowOf env (ticks w) (ticks (snd (runPipeline env w))) it (snd row)"
      by (rule rowOf_mono) (simp_all add: t)
  qed
  from y [THEN conjunct2, THEN conjunct2, THEN conjunct1]
  have c: "addedCount (fst (runPipeline env w)) = int (length (approvedJobsOf env w))" by simp
  from y [THEN conjunct2, THEN conjunct2, THEN conjunct2] q er
  have e: "scrapeFault env = None \<and> (\<forall>e. existingSelectFault env \<noteq> Some (Threw e)) \<and>
      verifyFault env = None \<and> analyzeFault env = None \<longrightarrow>
        errors (fst (runPipeline env w)) = []"
    by simp
  from d l c e show ?thesis by (intro exI [of _ rows] conjI)
qed

section \<open>The example run with two postings, stage by stage\<close>

lemma detectRedFlags_supportIntern: "detectRedFlags supportIntern = []"
  by (simp add: detectRedFlags_def RED_FLAG_PATTERNS_def supportIntern_def digits1_def
        digits3_def dotStar_def canonicalize_ascii toLowerChar_ascii toLowerCase_def
        orEmpty_def)


lemma verifyJob_clean:
  assumes "detectRedFlags j = []"
    and "fetch env = (\<lambda>m u. Response 200)"
    and "hostname env = (\<lambda>u. Some ''acme.example'')"
  shows "verifyJob env j =
     \<lparr>isValid = True, urlStatus = Some 200, urlAccessible = True,
      companyDomainValid = True, hasRedFlags = False, redFlags = [],
      verdictNotes = ''URL accessible (200); Company domain valid; No red flags''\<rparr>"
proof -
  have c: "checkUrlAccessibility env u = \<lparr>accessible = True, status = Some 200\<rparr>" for u
    by (simp add: checkUrlAccessibility_def assms(2))
  have d: "checkCompanyDomain env (applyUrl j) = True"
    by (simp add: checkCompanyDomain_def extractDomain_def assms(3) stripWww_def c
          acme_not_trusted)
  have s: "showNat 200 = ''200''"
    by (simp add: showNat.simps digitChar_def char_of_eq_iff)
  show ?thesis
    unfolding verifyJob_def c d assms(1) Let_def
    by (simp add: s)
qed

lemma pair_scored:
  assumes "newJobsOf env w = [j1, j2]" "verifyFault env = None"
    "urlAccessible (verifyJob env j1)" "\<not> hasRedFlags (verifyJob env j1)"
    "urlAccessible (verifyJob env j2)" "\<not> hasRedFlags (verifyJob env j2)"
  shows "validJobsOf env w = [j1, j2]"
    and "scoredJobsOf env w =
     [\<lparr>job = j1, verification = Some (verifyJob env j1),
       aiAnalysis = (if analyzeFault env = None then analyzeJobWithAI env j1 else defaultAnalysis)\<rparr>,
      \<lparr>job = j2, verification = Some (verifyJob env j2),
       aiAnalysis = (if analyzeFault env = None then analyzeJobWithAI env j2 else defaultAnalysis)\<rparr>]"
proof -
  have r: "verificationResultsOf env w j1 = Some (verifyJob env j1)"
    "verificationResultsOf env w j2 = Some (verifyJob env j2)"
    using assms(1,2) by (simp_all add: verificationResultsOf_eq)
  show v: "validJobsOf env w = [j1, j2]"
    using assms by (simp add: validJobsOf_def passedVerification_def r)
  show "scoredJobsOf env w =
     [\<lparr>job = j1, verification = Some (verifyJob env j1),
       aiAnalysis = (if analyzeFault env = None then analyzeJobWithAI env j1 else defaultAnalysis)\<rparr>,
      \<lparr>job = j2, verification = Some (verifyJob env j2),
       aiAnalysis = (if analyzeFault env = None then analyzeJobWithAI env j2 else defaultAnalysis)\<rparr>]"
    by (simp add: scoredJobsOf_def v combine_def aiResultsOf_eq r)
qed


lemma mixed_jobs:
  assumes "scrapeFault env = None" "allJobs env = [juniorDeveloper, supportIntern]"
  shows "jobsOf env = [juniorDeveloper, supportIntern]"
  using assms
  by (simp add: jobsOf_def scrapeAllSources_def jobKey_def juniorDeveloper_def
        supportIntern_def toLowerCase_def toLowerChar_ascii)

lemma mixed_verdicts:
  assumes "fetch env = (\<lambda>m u. Response 200)" "hostname env = (\<lambda>u. Some ''acme.example'')"
  shows "urlAccessible (verifyJob env juniorDeveloper)"
    "\<not> hasRedFlags (verifyJob env juniorDeveloper)"
    "urlAccessible (verifyJob env supportIntern)"
    "\<not> hasRedFlags (verifyJob env supportIntern)"
    "verdictNotes (verifyJob env juniorDeveloper) =
       ''URL accessible (200); Company domain valid; No red flags''"
    "verdictNotes (verifyJob env supportIntern) =
       ''URL accessible (200); Company domain valid; No red flags''"
  by (simp_all add: verifyJob_clean [OF detectRedFlags_juniorDeveloper assms]
        verifyJob_clean [OF detectRedFlags_supportIntern assms])


section \<open>Verification filter\<close>

lemma single_scored:
  assumes "newJobsOf env w = [j]" "verifyFault env = None"
    "urlAccessible (verifyJob env j)" "\<not> hasRedFlags (verifyJob env j)"
  shows "validJobsOf env w = [j]"
    and "scoredJobsOf env w =
     [\<lparr>job = j, verification = Some (verifyJob env j),
       aiAnalysis = (if analyzeFault env = None then analyzeJobWithAI env j else defaultAnalysis)\<rparr>]"
proof -
  from validJobsOf_single [OF assms] show v: "validJobsOf env w = [j]" by simp
  from validJobsOf_single [OF assms] have "verificationResultsOf env w j = Some (verifyJob env j)"
    by simp
  with v show "scoredJobsOf env w =
     [\<lparr>job = j, verification = Some (verifyJob env j),
       aiAnalysis = (if analyzeFault env = None then analyzeJobWithAI env j else defaultAnalysis)\<rparr>]"
    by (rule scoredJobsOf_single)
qed

lemma isValid_verifyJob:
  "isValid (verifyJob env j) =
     (urlAccessible (verifyJob env j) \<and> companyDomainValid (verifyJob env j)
      \<and> \<not> hasRedFlags (verifyJob env j))"
  by (simp add: verifyJob_def Let_def)

text \<open>
  C1, at a posting whose apply URL answers 200 while the root of its host answers
  404. The verdict of \<open>verifyJob\<close> is not valid, because the company domain is not;
  the filter of \<open>runPipeline\<close> reads only \<open>urlAccessible\<close> and \<open>hasRedFlags\<close>, so the
  posting is kept, scored and stored as \<open>VERIFIED\<close>.
\<close>

theorem C1_invalid_domain_is_kept:
  "companyDomainValid (verifyJob domainEnv juniorDeveloper) = False \<and>
   isValid (verifyJob domainEnv juniorDeveloper) = False \<and>
   newJobsOf domainEnv emptyWorld = [juniorDeveloper] \<and>
   validJobsOf domainEnv emptyWorld = [juniorDeveloper] \<and>
   verifiedCount (fst (runPipeline domainEnv emptyWorld)) = 1 \<and>
   addedCount (fst (runPipeline domainEnv emptyWorld)) = 1 \<and>
   map (verification_status \<circ> snd) (db (snd (runPipeline domainEnv emptyWorld))) = [VERIFIED]"
proof -
  have f: "verifyFault domainEnv = None" "analyzeFault domainEnv = None"
    "openAI domainEnv = (\<lambda>j. None)" "anthropic domainEnv = (\<lambda>j. None)"
    "insertFault domainEnv = (\<lambda>p. None)"
    by (simp_all add: domainEnv_def approveEnv_def quiet_fields)
  have j: "jobsOf domainEnv = [juniorDeveloper]"
    by (rule jobsOf_single)
       (simp_all add: domainEnv_def approveEnv_def allJobs_def quiet_fields)
  have n: "newJobsOf domainEnv emptyWorld = [juniorDeveloper]"
    using newJobsOf_empty_table [of emptyWorld domainEnv] j by (simp add: emptyWorld_def)
  have ua: "urlAccessible (verifyJob domainEnv juniorDeveloper)"
    and rf: "\<not> hasRedFlags (verifyJob domainEnv juniorDeveloper)"
    by (simp_all add: domain_verdict)
  note sc = single_scored [OF n f(1) ua rf]
  have ai: "analyzeJobWithAI domainEnv juniorDeveloper = analyzeWithRules juniorDeveloper"
    by (simp add: analyzeJobWithAI_def f)
  define item where "item = \<lparr>job = juniorDeveloper,
       verification = Some (verifyJob domainEnv juniorDeveloper),
       aiAnalysis = analyzeWithRules juniorDeveloper\<rparr>"
  have ap: "approvedJobsOf domainEnv emptyWorld = [item]"
    by (simp add: approvedJobsOf_def sc(2) f ai item_def isApproved_def
          analyzeWithRules_juniorDeveloper)
  have r: "recommendation (aiAnalysis item) = APPROVE"
    by (simp add: item_def analyzeWithRules_juniorDeveloper)
  have run: "addedCount (fst (runPipeline domainEnv emptyWorld)) = 1 \<and>
         db (snd (runPipeline domainEnv emptyWorld)) =
           db emptyWorld @ [(freshId (db emptyWorld),
              insertRow (job item) (aiAnalysis item) (verifyJob domainEnv juniorDeveloper)
                (Some (clock domainEnv (Suc (ticks emptyWorld)))))]"
    by (rule run_single_added [OF ap])
       (simp_all add: item_def analyzeWithRules_juniorDeveloper f)
  have st: "map (verification_status \<circ> snd) (db (snd (runPipeline domainEnv emptyWorld))) = [VERIFIED]"
    using run r by (simp add: emptyWorld_def insertRow_def)
  have vc: "verifiedCount (fst (runPipeline domainEnv emptyWorld)) = 1"
    using run_counts [of domainEnv emptyWorld] by (simp add: sc(1))
  from n sc(1) vc run st show ?thesis by (simp add: domain_verdict)
qed


section \<open>Counters of a run\<close>

lemma reject_stage:
  "newJobsOf rejectEnv emptyWorld = [juniorDeveloper]"
  "validJobsOf rejectEnv emptyWorld = [juniorDeveloper]"
  "scoredJobsOf rejectEnv emptyWorld =
     [\<lparr>job = juniorDeveloper, verification = Some (verifyJob rejectEnv juniorDeveloper),
       aiAnalysis = rejectAssessment\<rparr>]"
  "approvedJobsOf rejectEnv emptyWorld = []"
proof -
  have f: "verifyFault rejectEnv = None" "analyzeFault rejectEnv = None"
    "openAI rejectEnv = (\<lambda>j. Some rejectAssessment)"
    by (simp_all add: rejectEnv_def approveEnv_def quiet_fields)
  have j: "jobsOf rejectEnv = [juniorDeveloper]"
    by (rule jobsOf_single)
       (simp_all add: rejectEnv_def approveEnv_def allJobs_def quiet_fields)
  show n: "newJobsOf rejectEnv emptyWorld = [juniorDeveloper]"
    using newJobsOf_empty_table [of emptyWorld rejectEnv] j by (simp add: emptyWorld_def)
  have v: "verifyJob rejectEnv juniorDeveloper =
     \<lparr>isValid = True, urlStatus = Some 200, urlAccessible = True,
      companyDomainValid = True, hasRedFlags = False, redFlags = [],
      verdictNotes = ''URL accessible (200); Company domain valid; No red flags''\<rparr>"
    using verifyJob_juniorDeveloper [of rejectEnv 200]
    by (simp add: rejectEnv_def approveEnv_def quiet_fields)
  have ua: "urlAccessible (verifyJob rejectEnv juniorDeveloper)"
    and rf: "\<not> hasRedFlags (verifyJob rejectEnv juniorDeveloper)"
    by (simp_all add: v)
  note sc = single_scored [OF n f(1) ua rf]
  show "validJobsOf rejectEnv emptyWorld = [juniorDeveloper]" by (rule sc(1))
  show s: "scoredJobsOf rejectEnv emptyWorld =
     [\<lparr>job = juniorDeveloper, verification = Some (verifyJob rejectEnv juniorDeveloper),
       aiAnalysis = rejectAssessment\<rparr>]"
    by (simp add: sc(2) f analyzeJobWithAI_def)
  show "approvedJobsOf rejectEnv emptyWorld = []"
    by (simp add: approvedJobsOf_def s isApproved_def rejectAssessment_def)
qed

lemma reject_jobs: "jobsOf rejectEnv = [juniorDeveloper]"
  by (rule jobsOf_single)
     (simp_all add: rejectEnv_def approveEnv_def allJobs_def quiet_fields)

text \<open>
  C3, as the program has it. The failed counter is the number of new candidates
  that did not pass the verification filter plus the number of accepted
  candidates whose insert did not add a row (the added counter is the number of
  rows added). A scored candidate whose assessment was not accepted is dropped
  and is not counted as failed, added or skipped; it stays counted as scraped and
  as verified, the verified counter being the number of scored candidates,
  accepted or not. The scraped postings are the skipped, the added, the failed
  and the scored candidates that were not accepted.
\<close>

theorem C3_failed_counts_two_stages:
  "failedCount (fst (runPipeline env w)) =
     int (length (filter (\<lambda>j. \<not> passedVerification (verificationResultsOf env w) j)
                    (newJobsOf env w)))
     + (int (length (approvedJobsOf env w)) - addedCount (fst (runPipeline env w))) \<and>
   addedCount (fst (runPipeline env w)) =
     int (length (db (snd (runPipeline env w)))) - int (length (db w)) \<and>
   0 \<le> addedCount (fst (runPipeline env w)) \<and>
   addedCount (fst (runPipeline env w)) \<le> int (length (approvedJobsOf env w)) \<and>
   scrapedCount (fst (runPipeline env w)) =
     skippedCount (fst (runPipeline env w)) + addedCount (fst (runPipeline env w))
     + failedCount (fst (runPipeline env w))
     + int (length (filter (\<lambda>item. \<not> isApproved item) (scoredJobsOf env w))) \<and>
   verifiedCount (fst (runPipeline env w)) = int (length (scoredJobsOf env w)) \<and>
   verifiedCount (fst (runPipeline env w)) =
     int (length (approvedJobsOf env w))
     + int (length (filter (\<lambda>item. \<not> isApproved item) (scoredJobsOf env w))) \<and>
   (\<forall>item \<in> set (scoredJobsOf env w).
      isApproved item =
        (recommendation (aiAnalysis item) = APPROVE \<or>
         (recommendation (aiAnalysis item) = REVIEW \<and> legitimacyScore (aiAnalysis item) \<ge> 60)))"
proof -
  define res where "res = fst (runPipeline env w)"
  note c = run_counts [of env w, folded res_def]
  from run_rows [of env w] obtain rows where
    d: "db (snd (runPipeline env w)) = db w @ rows" and
    a: "addedCount res = int (length rows)" and
    l: "length rows \<le> length (approvedJobsOf env w)"
    unfolding res_def by blast
  have nv: "int (length (newJobsOf env w)) - int (length (validJobsOf env w)) =
      int (length (filter (\<lambda>j. \<not> passedVerification (verificationResultsOf env w) j)
                    (newJobsOf env w)))"
    using sum_length_filter_compl [of "passedVerification (verificationResultsOf env w)"
            "newJobsOf env w"]
    by (simp add: validJobsOf_def)
  have sa: "int (length (validJobsOf env w)) =
      int (length (approvedJobsOf env w))
      + int (length (filter (\<lambda>item. \<not> isApproved item) (scoredJobsOf env w)))"
    using sum_length_filter_compl [of isApproved "scoredJobsOf env w"]
    by (simp add: approvedJobsOf_def scoredJobsOf_def del: filter_map length_filter_map)
  have 1: "failedCount res =
     int (length (filter (\<lambda>j. \<not> passedVerification (verificationResultsOf env w) j)
                    (newJobsOf env w)))
     + (int (length (approvedJobsOf env w)) - addedCount res)"
    using c nv by simp
  have 2: "addedCount res = int (length (db (snd (runPipeline env w)))) - int (length (db w))"
    using d a by simp
  have 3: "0 \<le> addedCount res" using a by simp
  have 4: "addedCount res \<le> int (length (approvedJobsOf env w))" using a l by simp
  have 5: "scrapedCount res = skippedCount res + addedCount res + failedCount res
     + int (length (filter (\<lambda>item. \<not> isApproved item) (scoredJobsOf env w)))"
    using c sa by simp
  have 6: "verifiedCount res = int (length (scoredJobsOf env w))"
    using c by (simp add: scoredJobsOf_def)
  have 7: "verifiedCount res = int (length (approvedJobsOf env w))
     + int (length (filter (\<lambda>item. \<not> isApproved item) (scoredJobsOf env w)))"
    using c sa by simp
  have 8: "\<forall>item \<in> set (scoredJobsOf env w).
      isApproved item =
        (recommendation (aiAnalysis item) = APPROVE \<or>
         (recommendation (aiAnalysis item) = REVIEW \<and> legitimacyScore (aiAnalysis item) \<ge> 60))"
    by (simp add: isApproved_def)
  from 1 2 3 4 5 6 7 8 show ?thesis unfolding res_def by (intro conjI)
qed

theorem C3_failed_counts_two_stages_witness:
  "scrapedCount (fst (runPipeline rejectEnv emptyWorld)) = 1 \<and>
   length (filter (\<lambda>item. \<not> isApproved item) (scoredJobsOf rejectEnv emptyWorld)) = 1 \<and>
   skippedCount (fst (runPipeline rejectEnv emptyWorld))
     + addedCount (fst (runPipeline rejectEnv emptyWorld))
     + failedCount (fst (runPipeline rejectEnv emptyWorld)) = 0 \<and>
   verifiedCount (fst (runPipeline rejectEnv emptyWorld)) = 1"
proof -
  have s: "scrapedCount (fst (runPipeline rejectEnv emptyWorld)) = 1"
    using run_counts [of rejectEnv emptyWorld] by (simp add: reject_jobs)
  have n: "length (filter (\<lambda>item. \<not> isApproved item) (scoredJobsOf rejectEnv emptyWorld)) = 1"
    by (simp add: reject_stage(3) isApproved_def rejectAssessment_def)
  from C3_failed_counts_two_stages [of rejectEnv emptyWorld]
  have "scrapedCount (fst (runPipeline rejectEnv emptyWorld)) =
     skippedCount (fst (runPipeline rejectEnv emptyWorld))
     + addedCount (fst (runPipeline rejectEnv emptyWorld))
     + failedCount (fst (runPipeline rejectEnv emptyWorld))
     + int (length (filter (\<lambda>item. \<not> isApproved item) (scoredJobsOf rejectEnv emptyWorld)))"
    by (elim conjE)
  with s n have a: "skippedCount (fst (runPipeline rejectEnv emptyWorld))
     + addedCount (fst (runPipeline rejectEnv emptyWorld))
     + failedCount (fst (runPipeline rejectEnv emptyWorld)) = 0"
    by simp
  from C3_failed_counts_two_stages [of rejectEnv emptyWorld]
  have "verifiedCount (fst (runPipeline rejectEnv emptyWorld)) =
          int (length (scoredJobsOf rejectEnv emptyWorld))"
    by (elim conjE)
  then have v: "verifiedCount (fst (runPipeline rejectEnv emptyWorld)) = 1"
    by (simp add: reject_stage(3))
  from s n a v show ?thesis by (intro conjI)
qed

text \<open>
  The claim as stated fails at a run whose only candidate passes verification
  and is rejected by the scorer: it is neither skipped nor added, and the failed
  counter is zero. The candidate is counted as scraped and as verified.
\<close>

theorem C3_rejected_not_counted_counterexample:
  "newJobsOf rejectEnv emptyWorld = [juniorDeveloper] \<and>
   validJobsOf rejectEnv emptyWorld = [juniorDeveloper] \<and>
   approvedJobsOf rejectEnv emptyWorld = [] \<and>
   scrapedCount (fst (runPipeline rejectEnv emptyWorld)) = 1 \<and>
   skippedCount (fst (runPipeline rejectEnv emptyWorld)) = 0 \<and>
   addedCount (fst (runPipeline rejectEnv emptyWorld)) = 0 \<and>
   failedCount (fst (runPipeline rejectEnv emptyWorld)) = 0 \<and>
   verifiedCount (fst (runPipeline rejectEnv emptyWorld)) = 1 \<and>
   recommendation (aiAnalysis (hd (scoredJobsOf rejectEnv emptyWorld))) = REJECT"
  using run_counts [of rejectEnv emptyWorld] run_none_approved [OF reject_stage(4)]
  by (simp add: reject_stage reject_jobs rejectAssessment_def)


section \<open>Acceptance and the stored row\<close>




lemma approve_stage:
  "newJobsOf approveEnv emptyWorld = [juniorDeveloper]"
  "validJobsOf approveEnv emptyWorld = [juniorDeveloper]"
  "scoredJobsOf approveEnv emptyWorld =
     [\<lparr>job = juniorDeveloper, verification = Some (verifyJob approveEnv juniorDeveloper),
       aiAnalysis = analyzeWithRules juniorDeveloper\<rparr>]"
  "approvedJobsOf approveEnv emptyWorld =
     [\<lparr>job = juniorDeveloper, verification = Some (verifyJob approveEnv juniorDeveloper),
       aiAnalysis = analyzeWithRules juniorDeveloper\<rparr>]"
proof -
  have f: "verifyFault approveEnv = None" "analyzeFault approveEnv = None"
    "openAI approveEnv = (\<lambda>j. None)" "anthropic approveEnv = (\<lambda>j. None)"
    by (simp_all add: approveEnv_def quiet_fields)
  show n: "newJobsOf approveEnv emptyWorld = [juniorDeveloper]"
    using newJobsOf_empty_table [of emptyWorld approveEnv] approve_jobs
    by (simp add: emptyWorld_def)
  have ua: "urlAccessible (verifyJob approveEnv juniorDeveloper)"
    and rf: "\<not> hasRedFlags (verifyJob approveEnv juniorDeveloper)"
    by (simp_all add: approve_verdict)
  note sc = single_scored [OF n f(1) ua rf]
  show "validJobsOf approveEnv emptyWorld = [juniorDeveloper]" by (rule sc(1))
  show s: "scoredJobsOf approveEnv emptyWorld =
     [\<lparr>job = juniorDeveloper, verification = Some (verifyJob approveEnv juniorDeveloper),
       aiAnalysis = analyzeWithRules juniorDeveloper\<rparr>]"
    by (simp add: sc(2) f analyzeJobWithAI_def)
  show "approvedJobsOf approveEnv emptyWorld =
     [\<lparr>job = juniorDeveloper, verification = Some (verifyJob approveEnv juniorDeveloper),
       aiAnalysis = analyzeWithRules juniorDeveloper\<rparr>]"
    by (simp add: approvedJobsOf_def s isApproved_def analyzeWithRules_juniorDeveloper)
qed

lemma approve_first_run:
  "addedCount (fst (runPipeline approveEnv emptyWorld)) = 1 \<and>
   db (snd (runPipeline approveEnv emptyWorld)) =
     [(1, insertRow juniorDeveloper (analyzeWithRules juniorDeveloper)
            (verifyJob approveEnv juniorDeveloper) (Some 1000000001))]"
proof -
  have "addedCount (fst (runPipeline approveEnv emptyWorld)) = 1 \<and>
     db (snd (runPipeline approveEnv emptyWorld)) =
       db emptyWorld @ [(freshId (db emptyWorld),
          insertRow (job \<lparr>job = juniorDeveloper,
                verification = Some (verifyJob approveEnv juniorDeveloper),
                aiAnalysis = analyzeWithRules juniorDeveloper\<rparr>)
            (aiAnalysis \<lparr>job = juniorDeveloper,
                verification = Some (verifyJob approveEnv juniorDeveloper),
                aiAnalysis = analyzeWithRules juniorDeveloper\<rparr>)
            (verifyJob approveEnv juniorDeveloper) (Some 1000000001))]"
    by (rule run_single_added [OF approve_stage(4)])
       (simp_all add: analyzeWithRules_juniorDeveloper approveEnv_def quiet_fields
          emptyWorld_def)
  then show ?thesis by (simp add: emptyWorld_def freshId_def)
qed


section \<open>A missing assessment\<close>

lemma noAnalysis_fields:
  "scrapeFault noAnalysisEnv = None" "verifyFault noAnalysisEnv = None"
  "analyzeFault noAnalysisEnv = Some ''RangeError: out of memory''"
  "existingSelectFault noAnalysisEnv = None" "insertFault noAnalysisEnv = (\<lambda>p. None)"
  "fetch noAnalysisEnv = (\<lambda>m u. Response 200)"
  "hostname noAnalysisEnv = (\<lambda>u. Some ''acme.example'')"
  "allJobs noAnalysisEnv = [juniorDeveloper, supportIntern]"
  by (simp_all add: noAnalysisEnv_def mixedEnv_def allJobs_def quiet_fields)

lemma noAnalysis_stage:
  "validJobsOf noAnalysisEnv emptyWorld = [juniorDeveloper, supportIntern]"
  "aiResultsOf noAnalysisEnv emptyWorld j = None"
  "approvedJobsOf noAnalysisEnv emptyWorld =
     [\<lparr>job = juniorDeveloper, verification = Some (verifyJob noAnalysisEnv juniorDeveloper),
       aiAnalysis = defaultAnalysis\<rparr>,
      \<lparr>job = supportIntern, verification = Some (verifyJob noAnalysisEnv supportIntern),
       aiAnalysis = defaultAnalysis\<rparr>]"
proof -
  have j: "jobsOf noAnalysisEnv = [juniorDeveloper, supportIntern]"
    by (rule mixed_jobs) (simp_all add: noAnalysis_fields)
  have n: "newJobsOf noAnalysisEnv emptyWorld = [juniorDeveloper, supportIntern]"
    using newJobsOf_empty_table [of emptyWorld noAnalysisEnv] j by (simp add: emptyWorld_def)
  note v = mixed_verdicts [OF noAnalysis_fields(6) noAnalysis_fields(7)]
  note sc = pair_scored [OF n noAnalysis_fields(2) v(1) v(2) v(3) v(4)]
  show "validJobsOf noAnalysisEnv emptyWorld = [juniorDeveloper, supportIntern]" by (rule sc(1))
  show "aiResultsOf noAnalysisEnv emptyWorld j = None"
    by (simp add: aiResultsOf_eq noAnalysis_fields)
  show "approvedJobsOf noAnalysisEnv emptyWorld =
     [\<lparr>job = juniorDeveloper, verification = Some (verifyJob noAnalysisEnv juniorDeveloper),
       aiAnalysis = defaultAnalysis\<rparr>,
      \<lparr>job = supportIntern, verification = Some (verifyJob noAnalysisEnv supportIntern),
       aiAnalysis = defaultAnalysis\<rparr>]"
    by (simp add: approvedJobsOf_def sc(2) noAnalysis_fields isApproved_def defaultAnalysis_def)
qed

text \<open>
  C10. When the scoring stage has no assessment for a candidate that passed the
  verification filter, the candidate is scored with the default assessment
  (score 70, REVIEW, no concerns, reasoning \<open>No AI analysis available\<close>) and it is
  accepted. The row built for it has status \<open>PENDING\<close> and no timestamp, and the
  run passes that row to the store: when the store takes it, the row is among the
  rows that the run has added to the table; when the store refuses it, the errors
  of the run name the posting. The candidate is not dropped for want of an
  assessment.
\<close>

theorem C10_default_assessment_accepted:
  assumes "j \<in> set (validJobsOf env w)" and "aiResultsOf env w j = None"
  shows "aiAnalysis (combine (verificationResultsOf env w) (aiResultsOf env w) j) =
           \<lparr>legitimacyScore = 70, isLikelyGhostJob = False, concerns = [], positiveSignals = [],
            recommendation = REVIEW, reasoning = ''No AI analysis available''\<rparr> \<and>
         combine (verificationResultsOf env w) (aiResultsOf env w) j
           \<in> set (approvedJobsOf env w) \<and>
         (\<exists>v. verificationResultsOf env w j = Some v \<and>
            (\<forall>lo hi r. rowOf env lo hi
                 (combine (verificationResultsOf env w) (aiResultsOf env w) j) r \<longrightarrow>
               r = insertRow j defaultAnalysis v None \<and>
               verification_status r = PENDING \<and> last_verified_at r = None) \<and>
            (\<forall>w0 a e. insertFault env (insertRow j defaultAnalysis v None) = None \<longrightarrow>
               insertOne env (combine (verificationResultsOf env w) (aiResultsOf env w) j)
                   (w0, a, e) =
                 (w0\<lparr>db := db w0 @ [(freshId (db w0), insertRow j defaultAnalysis v None)]\<rparr>,
                  a + 1, e)) \<and>
            verification_status (insertRow j defaultAnalysis v None) = PENDING \<and>
            last_verified_at (insertRow j defaultAnalysis v None) = None \<and>
            apply_url (insertRow j defaultAnalysis v None) = applyUrl j \<and>
            (\<exists>rows. db (snd (runPipeline env w)) = db w @ rows \<and>
               addedCount (fst (runPipeline env w)) = int (length rows) \<and>
               (insertFault env (insertRow j defaultAnalysis v None) = None \<longrightarrow>
                  insertRow j defaultAnalysis v None \<in> snd ` set rows) \<and>
               (insertFault env (insertRow j defaultAnalysis v None) \<noteq> None \<longrightarrow>
                  (\<exists>m. insertErrorFor
                         (combine (verificationResultsOf env w) (aiResultsOf env w) j) m
                       \<in> set (errors (fst (runPipeline env w)))))))"
proof -
  define item where "item = combine (verificationResultsOf env w) (aiResultsOf env w) j"
  have ai: "aiAnalysis item = defaultAnalysis" and jb: "job item = j"
    and vi: "verification item = verificationResultsOf env w j"
    using assms(2) by (simp_all add: item_def combine_def)
  have sc: "item \<in> set (scoredJobsOf env w)"
    using assms(1) by (simp add: scoredJobsOf_def item_def)
  have rec: "recommendation (aiAnalysis item) = REVIEW" "legitimacyScore (aiAnalysis item) = 70"
    by (simp_all add: ai defaultAnalysis_def)
  then have "isApproved item" by (simp add: isApproved_def)
  with sc have ap: "item \<in> set (approvedJobsOf env w)" by (simp add: approvedJobsOf_def)
  from scored_has_verification [OF sc] vi obtain v where
    v: "verificationResultsOf env w j = Some v" by auto
  define row where "row = insertRow j defaultAnalysis v None"
  have rows: "\<forall>lo hi r. rowOf env lo hi item r \<longrightarrow>
               r = row \<and> verification_status r = PENDING \<and> last_verified_at r = None"
    using rec by (simp add: rowOf_def vi v ai jb insertRow_def row_def)
  have ins: "\<forall>w0 a e. insertFault env row = None \<longrightarrow>
               insertOne env item (w0, a, e) =
                 (w0\<lparr>db := db w0 @ [(freshId (db w0), row)]\<rparr>, a + 1, e)"
    using rec by (simp add: insertOne_def vi v ai jb dbInsert_def row_def)
  have d: "aiAnalysis item =
           \<lparr>legitimacyScore = 70, isLikelyGhostJob = False, concerns = [], positiveSignals = [],
            recommendation = REVIEW, reasoning = ''No AI analysis available''\<rparr>"
    by (simp add: ai defaultAnalysis_def)
  have st: "verification_status row = PENDING" and ts: "last_verified_at row = None"
    and au: "apply_url row = applyUrl j"
    by (simp_all add: row_def insertRow_def defaultAnalysis_def)
  from run_stores_accepted [of env w] obtain added where
    x: "db (snd (runPipeline env w)) = db w @ added \<and>
     addedCount (fst (runPipeline env w)) = int (length added) \<and>
     (\<forall>row \<in> set added. \<exists>item \<in> set (approvedJobsOf env w).
        rowOf env (ticks w) (ticks (snd (runPipeline env w))) item (snd row)) \<and>
     (\<forall>item \<in> set (approvedJobsOf env w).
        \<exists>r. rowOf env (ticks w) (ticks (snd (runPipeline env w))) item r \<and>
          (insertFault env r = None \<longrightarrow> r \<in> snd ` set added) \<and>
          (insertFault env r \<noteq> None \<longrightarrow>
             (\<exists>m. insertErrorFor item m \<in> set (errors (fst (runPipeline env w))))))" ..
  from x [THEN conjunct2, THEN conjunct2, THEN conjunct2] ap
  have "\<exists>r. rowOf env (ticks w) (ticks (snd (runPipeline env w))) item r \<and>
          (insertFault env r = None \<longrightarrow> r \<in> snd ` set added) \<and>
          (insertFault env r \<noteq> None \<longrightarrow>
             (\<exists>m. insertErrorFor item m \<in> set (errors (fst (runPipeline env w)))))"
    by (rule bspec)
  then obtain r where y: "rowOf env (ticks w) (ticks (snd (runPipeline env w))) item r \<and>
          (insertFault env r = None \<longrightarrow> r \<in> snd ` set added) \<and>
          (insertFault env r \<noteq> None \<longrightarrow>
             (\<exists>m. insertErrorFor item m \<in> set (errors (fst (runPipeline env w)))))" ..
  from rows y [THEN conjunct1] have r: "r = row" by blast
  have run: "\<exists>rows. db (snd (runPipeline env w)) = db w @ rows \<and>
               addedCount (fst (runPipeline env w)) = int (length rows) \<and>
               (insertFault env row = None \<longrightarrow> row \<in> snd ` set rows) \<and>
               (insertFault env row \<noteq> None \<longrightarrow>
                  (\<exists>m. insertErrorFor item m \<in> set (errors (fst (runPipeline env w)))))"
    using x [THEN conjunct1] x [THEN conjunct2, THEN conjunct1]
      y [THEN conjunct2, THEN conjunct1, unfolded r] y [THEN conjunct2, THEN conjunct2, unfolded r]
    by (intro exI [of _ added] conjI)
  have third: "\<exists>v. verificationResultsOf env w j = Some v \<and>
            (\<forall>lo hi r. rowOf env lo hi item r \<longrightarrow>
               r = insertRow j defaultAnalysis v None \<and>
               verification_status r = PENDING \<and> last_verified_at r = None) \<and>
            (\<forall>w0 a e. insertFault env (insertRow j defaultAnalysis v None) = None \<longrightarrow>
               insertOne env item (w0, a, e) =
                 (w0\<lparr>db := db w0 @ [(freshId (db w0), insertRow j defaultAnalysis v None)]\<rparr>,
                  a + 1, e)) \<and>
            verification_status (insertRow j defaultAnalysis v None) = PENDING \<and>
            last_verified_at (insertRow j defaultAnalysis v None) = None \<and>
            apply_url (insertRow j defaultAnalysis v None) = applyUrl j \<and>
            (\<exists>rows. db (snd (runPipeline env w)) = db w @ rows \<and>
               addedCount (fst (runPipeline env w)) = int (length rows) \<and>
               (insertFault env (insertRow j defaultAnalysis v None) = None \<longrightarrow>
                  insertRow j defaultAnalysis v None \<in> snd ` set rows) \<and>
               (insertFault env (insertRow j defaultAnalysis v None) \<noteq> None \<longrightarrow>
                  (\<exists>m. insertErrorFor item m \<in> set (errors (fst (runPipeline env w))))))"
    using v rows ins st ts au run unfolding row_def by (intro exI [of _ v] conjI)
  from d ap third show ?thesis unfolding item_def by (intro conjI)
qed

theorem C10_default_assessment_accepted_witness:
  "juniorDeveloper \<in> set (validJobsOf noAnalysisEnv emptyWorld) \<and>
   supportIntern \<in> set (validJobsOf noAnalysisEnv emptyWorld) \<and>
   aiResultsOf noAnalysisEnv emptyWorld juniorDeveloper = None \<and>
   aiResultsOf noAnalysisEnv emptyWorld supportIntern = None \<and>
   addedCount (fst (runPipeline noAnalysisEnv emptyWorld)) = 2 \<and>
   (\<exists>r1 r2. r1 \<in> set (db (snd (runPipeline noAnalysisEnv emptyWorld))) \<and>
      r2 \<in> set (db (snd (runPipeline noAnalysisEnv emptyWorld))) \<and>
      apply_url (snd r1) = applyUrl juniorDeveloper \<and>
      apply_url (snd r2) = applyUrl supportIntern \<and>
      verification_status (snd r1) = PENDING \<and> last_verified_at (snd r1) = None \<and>
      verification_status (snd r2) = PENDING \<and> last_verified_at (snd r2) = None)"
proof -
  have a1: "juniorDeveloper \<in> set (validJobsOf noAnalysisEnv emptyWorld)"
    and a2: "supportIntern \<in> set (validJobsOf noAnalysisEnv emptyWorld)"
    by (simp_all add: noAnalysis_stage)
  note b = noAnalysis_stage(2)
  have nf: "\<forall>p. insertFault noAnalysisEnv p = None" by (simp add: noAnalysis_fields)
  have stored: "\<exists>r. r \<in> set (db (snd (runPipeline noAnalysisEnv emptyWorld))) \<and>
      apply_url (snd r) = applyUrl j \<and>
      verification_status (snd r) = PENDING \<and> last_verified_at (snd r) = None"
    if j: "j \<in> set (validJobsOf noAnalysisEnv emptyWorld)" for j
  proof -
    from C10_default_assessment_accepted [OF j b, THEN conjunct2, THEN conjunct2]
    obtain v where x: "verificationResultsOf noAnalysisEnv emptyWorld j = Some v \<and>
            (\<forall>lo hi r. rowOf noAnalysisEnv lo hi
                 (combine (verificationResultsOf noAnalysisEnv emptyWorld)
                    (aiResultsOf noAnalysisEnv emptyWorld) j) r \<longrightarrow>
               r = insertRow j defaultAnalysis v None \<and>
               verification_status r = PENDING \<and> last_verified_at r = None) \<and>
            (\<forall>w0 a e. insertFault noAnalysisEnv (insertRow j defaultAnalysis v None) = None \<longrightarrow>
               insertOne noAnalysisEnv (combine (verificationResultsOf noAnalysisEnv emptyWorld)
                    (aiResultsOf noAnalysisEnv emptyWorld) j)
                   (w0, a, e) =
                 (w0\<lparr>db := db w0 @ [(freshId (db w0), insertRow j defaultAnalysis v None)]\<rparr>,
                  a + 1, e)) \<and>
            verification_status (insertRow j defaultAnalysis v None) = PENDING \<and>
            last_verified_at (insertRow j defaultAnalysis v None) = None \<and>
            apply_url (insertRow j defaultAnalysis v None) = applyUrl j \<and>
            (\<exists>rows. db (snd (runPipeline noAnalysisEnv emptyWorld)) = db emptyWorld @ rows \<and>
               addedCount (fst (runPipeline noAnalysisEnv emptyWorld)) = int (length rows) \<and>
               (insertFault noAnalysisEnv (insertRow j defaultAnalysis v None) = None \<longrightarrow>
                  insertRow j defaultAnalysis v None \<in> snd ` set rows) \<and>
               (insertFault noAnalysisEnv (insertRow j defaultAnalysis v None) \<noteq> None \<longrightarrow>
                  (\<exists>m. insertErrorFor
                         (combine (verificationResultsOf noAnalysisEnv emptyWorld)
                            (aiResultsOf noAnalysisEnv emptyWorld) j) m
                       \<in> set (errors (fst (runPipeline noAnalysisEnv emptyWorld))))))" ..
    note f = x [THEN conjunct2, THEN conjunct2, THEN conjunct2]
    from f [THEN conjunct2, THEN conjunct2, THEN conjunct2] obtain rows where
      y: "db (snd (runPipeline noAnalysisEnv emptyWorld)) = db emptyWorld @ rows \<and>
               addedCount (fst (runPipeline noAnalysisEnv emptyWorld)) = int (length rows) \<and>
               (insertFault noAnalysisEnv (insertRow j defaultAnalysis v None) = None \<longrightarrow>
                  insertRow j defaultAnalysis v None \<in> snd ` set rows) \<and>
               (insertFault noAnalysisEnv (insertRow j defaultAnalysis v None) \<noteq> None \<longrightarrow>
                  (\<exists>m. insertErrorFor
                         (combine (verificationResultsOf noAnalysisEnv emptyWorld)
                            (aiResultsOf noAnalysisEnv emptyWorld) j) m
                       \<in> set (errors (fst (runPipeline noAnalysisEnv emptyWorld)))))" ..
    from y [THEN conjunct2, THEN conjunct2, THEN conjunct1] nf
    have "insertRow j defaultAnalysis v None \<in> snd ` set rows" by simp
    then obtain r where r0: "r \<in> set rows" "snd r = insertRow j defaultAnalysis v None"
      by (auto simp: image_iff)
    from r0(1) y [THEN conjunct1]
    have "r \<in> set (db (snd (runPipeline noAnalysisEnv emptyWorld)))" by simp
    note r = this r0(2)
    from f [THEN conjunct1] f [THEN conjunct2, THEN conjunct1]
      f [THEN conjunct2, THEN conjunct2, THEN conjunct1] r
    have "r \<in> set (db (snd (runPipeline noAnalysisEnv emptyWorld))) \<and>
      apply_url (snd r) = applyUrl j \<and>
      verification_status (snd r) = PENDING \<and> last_verified_at (snd r) = None"
      by simp
    then show ?thesis ..
  qed
  from stored [OF a1] obtain r1 where
    r1: "r1 \<in> set (db (snd (runPipeline noAnalysisEnv emptyWorld))) \<and>
      apply_url (snd r1) = applyUrl juniorDeveloper \<and>
      verification_status (snd r1) = PENDING \<and> last_verified_at (snd r1) = None" ..
  from stored [OF a2] obtain r2 where
    r2: "r2 \<in> set (db (snd (runPipeline noAnalysisEnv emptyWorld))) \<and>
      apply_url (snd r2) = applyUrl supportIntern \<and>
      verification_status (snd r2) = PENDING \<and> last_verified_at (snd r2) = None" ..
  from run_all_stored [OF nf, of emptyWorld]
  have c: "addedCount (fst (runPipeline noAnalysisEnv emptyWorld)) = 2"
    by (auto simp: noAnalysis_stage(3))
  from r1 r2 have e: "\<exists>r1 r2. r1 \<in> set (db (snd (runPipeline noAnalysisEnv emptyWorld))) \<and>
      r2 \<in> set (db (snd (runPipeline noAnalysisEnv emptyWorld))) \<and>
      apply_url (snd r1) = applyUrl juniorDeveloper \<and>
      apply_url (snd r2) = applyUrl supportIntern \<and>
      verification_status (snd r1) = PENDING \<and> last_verified_at (snd r1) = None \<and>
      verification_status (snd r2) = PENDING \<and> last_verified_at (snd r2) = None"
    by blast
  from a1 a2 b [of juniorDeveloper] b [of supportIntern] c e show ?thesis by (intro conjI)
qed

section \<open>Running the pipeline again\<close>

lemma combine_cong:
  assumes "vr j = vr' j" "ar j = ar' j"
  shows "combine vr ar j = combine vr' ar' j"
  using assms by (simp add: combine_def)

lemma first_run_stores_accepted:
  assumes "stampBlind env"
  shows "storedUrls (db w) \<subseteq> storedUrls (db (snd (runPipeline env w))) \<and>
     (\<forall>item \<in> set (approvedJobsOf env w).
        insertOk env item \<longrightarrow> applyUrl (job item) \<in> storedUrls (db (snd (runPipeline env w))))"
proof -
  from runPipeline_stages [of env w] obtain errs0 w2 errs where
    ia: "insertApproved env (approvedJobsOf env w) (w\<lparr>ticks := Suc (ticks w)\<rparr>, 0, errs0) =
           (w2, addedCount (fst (runPipeline env w)), errs)"
    and sw: "snd (runPipeline env w) = w2\<lparr>ticks := Suc (ticks w2)\<rparr>"
    by blast
  from insertApproved_stores_accepted [OF assms ia] sw show ?thesis by simp
qed

lemma rerun_approved_were_refused:
  assumes blind: "stampBlind env" and read: "existingSelectFault env = None"
    and item: "item \<in> set (approvedJobsOf env (snd (runPipeline env w)))"
  shows "\<not> insertOk env item"
proof
  assume ok: "insertOk env item"
  define w1 where "w1 = snd (runPipeline env w)"
  note st = first_run_stores_accepted [OF blind, of w, folded w1_def]
  from item obtain j where j: "j \<in> set (validJobsOf env w1)"
    and i: "item = combine (verificationResultsOf env w1) (aiResultsOf env w1) j"
    and app: "isApproved item"
    unfolding w1_def approvedJobsOf_def scoredJobsOf_def by auto
  from j have n1: "j \<in> set (newJobsOf env w1)"
    and p1: "passedVerification (verificationResultsOf env w1) j"
    by (simp_all add: validJobsOf_def)
  from n1 read have jj: "j \<in> set (jobsOf env)" and u1: "applyUrl j \<notin> storedUrls (db w1)"
    and s1: "sourceUrl j \<notin> storedUrls (db w1)"
    by (simp_all add: newJobsOf_def existingUrlsOf_eq isNewJob_def)
  from u1 s1 st have "applyUrl j \<notin> storedUrls (db w)" "sourceUrl j \<notin> storedUrls (db w)"
    by auto
  with jj read have n0: "j \<in> set (newJobsOf env w)"
    by (simp add: newJobsOf_def existingUrlsOf_eq isNewJob_def)
  from n0 n1 have vr: "verificationResultsOf env w1 j = verificationResultsOf env w j"
    by (simp add: verificationResultsOf_eq)
  with p1 have "passedVerification (verificationResultsOf env w) j"
    by (simp add: passedVerification_def)
  with n0 have v0: "j \<in> set (validJobsOf env w)" by (simp add: validJobsOf_def)
  from v0 j have ar: "aiResultsOf env w1 j = aiResultsOf env w j"
    by (simp add: aiResultsOf_eq)
  from i vr ar have i0: "item = combine (verificationResultsOf env w) (aiResultsOf env w) j"
    by (simp add: combine_def)
  with v0 app have "item \<in> set (approvedJobsOf env w)"
    by (simp add: approvedJobsOf_def scoredJobsOf_def)
  with st ok have "applyUrl (job item) \<in> storedUrls (db w1)" by blast
  moreover have "job item = j" by (simp add: i combine_def)
  ultimately show False using u1 by simp
qed

lemma rerun_adds_nothing:
  assumes "stampBlind env" "existingSelectFault env = None"
  shows "addedCount (fst (runPipeline env (snd (runPipeline env w)))) = 0"
proof -
  define w1 where "w1 = snd (runPipeline env w)"
  from runPipeline_stages [of env w1] obtain errs0 w2 errs where
    ia: "insertApproved env (approvedJobsOf env w1) (w1\<lparr>ticks := Suc (ticks w1)\<rparr>, 0, errs0) =
           (w2, addedCount (fst (runPipeline env w1)), errs)"
    by blast
  have "\<forall>item \<in> set (approvedJobsOf env w1). \<not> insertOk env item"
    using rerun_approved_were_refused [OF assms, of _ w] by (simp add: w1_def)
  from insertApproved_all_refused [OF assms(1) this ia] show ?thesis
    by (simp add: w1_def)
qed

lemma skipped_are_stored:
  assumes "existingSelectFault env = None"
  shows "newJobsOf env w =
           filter (\<lambda>j. applyUrl j \<notin> storedUrls (db w) \<and> sourceUrl j \<notin> storedUrls (db w))
             (jobsOf env)"
    and "skippedCount (fst (runPipeline env w)) =
           int (length (filter (\<lambda>j. applyUrl j \<in> storedUrls (db w) \<or>
                                      sourceUrl j \<in> storedUrls (db w)) (jobsOf env)))"
proof -
  show n: "newJobsOf env w =
           filter (\<lambda>j. applyUrl j \<notin> storedUrls (db w) \<and> sourceUrl j \<notin> storedUrls (db w))
             (jobsOf env)"
  proof -
    have "isNewJob (storedUrls (db w)) =
        (\<lambda>j. applyUrl j \<notin> storedUrls (db w) \<and> sourceUrl j \<notin> storedUrls (db w))"
      by (rule ext) (simp add: isNewJob_def)
    with assms show ?thesis by (simp add: newJobsOf_def existingUrlsOf_eq)
  qed
  have "length (jobsOf env) =
      length (filter (\<lambda>j. applyUrl j \<notin> storedUrls (db w) \<and> sourceUrl j \<notin> storedUrls (db w))
                (jobsOf env))
      + length (filter (\<lambda>j. applyUrl j \<in> storedUrls (db w) \<or>
                                sourceUrl j \<in> storedUrls (db w)) (jobsOf env))"
    using sum_length_filter_compl
      [of "\<lambda>j. applyUrl j \<notin> storedUrls (db w) \<and> sourceUrl j \<notin> storedUrls (db w)"
          "jobsOf env"]
    by simp
  then show "skippedCount (fst (runPipeline env w)) =
           int (length (filter (\<lambda>j. applyUrl j \<in> storedUrls (db w) \<or>
                                      sourceUrl j \<in> storedUrls (db w)) (jobsOf env)))"
    using run_counts [of env w] by (simp add: n)
qed

text \<open>
  What holds when the read of the existing rows succeeds: the new postings are
  exactly the aggregator's postings with neither URL in storage, the others are
  counted as skipped, and only the new ones reach verification. A second run
  against the same environment (the same postings, responses, assessments and
  insert outcomes, the last not depending on the timestamp) and the table as the
  first run left it then adds nothing.
\<close>

lemma second_run_adds_nothing:
  assumes "existingSelectFault env = None" and "stampBlind env"
  shows "newJobsOf env w =
           filter (\<lambda>j. applyUrl j \<notin> storedUrls (db w) \<and> sourceUrl j \<notin> storedUrls (db w))
             (jobsOf env) \<and>
         skippedCount (fst (runPipeline env w)) =
           int (length (filter (\<lambda>j. applyUrl j \<in> storedUrls (db w) \<or>
                                      sourceUrl j \<in> storedUrls (db w)) (jobsOf env))) \<and>
         (\<forall>j. verificationResultsOf env w j \<noteq> None \<longrightarrow> j \<in> set (newJobsOf env w)) \<and>
         set (validJobsOf env w) \<subseteq> set (newJobsOf env w) \<and>
         addedCount (fst (runPipeline env (snd (runPipeline env w)))) = 0"
proof -
  note s = skipped_are_stored [OF assms(1), of w]
  have v: "\<forall>j. verificationResultsOf env w j \<noteq> None \<longrightarrow> j \<in> set (newJobsOf env w)"
    by (simp add: verificationResultsOf_eq)
  have l: "set (validJobsOf env w) \<subseteq> set (newJobsOf env w)"
    by (simp add: validJobsOf_def)
  note r = rerun_adds_nothing [OF assms(2) assms(1), of w]
  from s(1) s(2) v l r show ?thesis by (intro conjI)
qed

lemma second_run_adds_nothing_example:
  "existingSelectFault approveEnv = None \<and> stampBlind approveEnv \<and>
   addedCount (fst (runPipeline approveEnv emptyWorld)) = 1 \<and>
   skippedCount (fst (runPipeline approveEnv (snd (runPipeline approveEnv emptyWorld)))) = 1 \<and>
   addedCount (fst (runPipeline approveEnv (snd (runPipeline approveEnv emptyWorld)))) = 0"
proof -
  have a: "existingSelectFault approveEnv = None"
    by (simp add: approveEnv_def quiet_fields)
  have b: "stampBlind approveEnv"
    by (simp add: stampBlind_def approveEnv_def quiet_fields)
  define w1 where "w1 = snd (runPipeline approveEnv emptyWorld)"
  have st: "applyUrl juniorDeveloper \<in> storedUrls (db w1)"
    using approve_first_run by (simp add: w1_def storedUrls_def insertRow_def)
  note t = second_run_adds_nothing [OF a b]
  from t [of emptyWorld] have z: "addedCount (fst (runPipeline approveEnv w1)) = 0"
    unfolding w1_def by (elim conjE)
  from t [of w1] have "skippedCount (fst (runPipeline approveEnv w1)) =
      int (length (filter (\<lambda>j. applyUrl j \<in> storedUrls (db w1) \<or>
                               sourceUrl j \<in> storedUrls (db w1)) (jobsOf approveEnv)))"
    by (elim conjE)
  with st have s: "skippedCount (fst (runPipeline approveEnv w1)) = 1"
    by (simp add: approve_jobs)
  from approve_first_run have f: "addedCount (fst (runPipeline approveEnv emptyWorld)) = 1"
    by simp
  from a b f s z show ?thesis unfolding w1_def by (intro conjI)
qed

lemma noRead_run:
  "addedCount (fst (runPipeline noReadEnv w)) = 1 \<and>
   skippedCount (fst (runPipeline noReadEnv w)) = 0 \<and>
   applyUrl juniorDeveloper \<in> storedUrls (db (snd (runPipeline noReadEnv w))) \<and>
   errors (fst (runPipeline noReadEnv w)) = [] \<and>
   map fst (db (snd (runPipeline noReadEnv w))) = map fst (db w) @ [freshId (db w)] \<and>
   map (apply_url \<circ> snd) (db (snd (runPipeline noReadEnv w))) =
     map (apply_url \<circ> snd) (db w) @ [applyUrl juniorDeveloper]"
proof -
  have f: "verifyFault noReadEnv = None" "analyzeFault noReadEnv = None"
    "openAI noReadEnv = (\<lambda>j. None)" "anthropic noReadEnv = (\<lambda>j. None)"
    "insertFault noReadEnv = (\<lambda>p. None)" "existingSelectFault noReadEnv \<noteq> None"
    by (simp_all add: noReadEnv_def approveEnv_def quiet_fields)
  have j: "jobsOf noReadEnv = [juniorDeveloper]"
    by (rule jobsOf_single)
       (simp_all add: noReadEnv_def approveEnv_def allJobs_def quiet_fields)
  have n: "newJobsOf noReadEnv w = [juniorDeveloper]"
    using newJobsOf_unread [OF f(6), of w] j by simp
  have v: "verifyJob noReadEnv juniorDeveloper =
     \<lparr>isValid = True, urlStatus = Some 200, urlAccessible = True,
      companyDomainValid = True, hasRedFlags = False, redFlags = [],
      verdictNotes = ''URL accessible (200); Company domain valid; No red flags''\<rparr>"
    using verifyJob_juniorDeveloper [of noReadEnv 200]
    by (simp add: noReadEnv_def approveEnv_def quiet_fields)
  have ua: "urlAccessible (verifyJob noReadEnv juniorDeveloper)"
    and rf: "\<not> hasRedFlags (verifyJob noReadEnv juniorDeveloper)"
    by (simp_all add: v)
  note sc = single_scored [OF n f(1) ua rf]
  define item where "item = \<lparr>job = juniorDeveloper,
       verification = Some (verifyJob noReadEnv juniorDeveloper),
       aiAnalysis = analyzeWithRules juniorDeveloper\<rparr>"
  have ap: "approvedJobsOf noReadEnv w = [item]"
    by (simp add: approvedJobsOf_def sc(2) f analyzeJobWithAI_def item_def isApproved_def
          analyzeWithRules_juniorDeveloper)
  have run: "addedCount (fst (runPipeline noReadEnv w)) = 1 \<and>
         db (snd (runPipeline noReadEnv w)) =
           db w @ [(freshId (db w),
              insertRow (job item) (aiAnalysis item) (verifyJob noReadEnv juniorDeveloper)
                (Some (clock noReadEnv (Suc (ticks w)))))]"
    by (rule run_single_added [OF ap])
       (simp_all add: item_def analyzeWithRules_juniorDeveloper f)
  then have st: "applyUrl juniorDeveloper \<in> storedUrls (db (snd (runPipeline noReadEnv w)))"
    by (simp add: storedUrls_append) (simp add: storedUrls_def insertRow_def item_def)
  have sk: "skippedCount (fst (runPipeline noReadEnv w)) = 0"
    using run_counts [of noReadEnv w] by (simp add: j n)
  have nf: "\<forall>p. insertFault noReadEnv p = None" by (simp add: f)
  have q: "scrapeFault noReadEnv = None \<and> (\<forall>e. existingSelectFault noReadEnv \<noteq> Some (Threw e)) \<and>
      verifyFault noReadEnv = None \<and> analyzeFault noReadEnv = None"
    by (simp add: noReadEnv_def approveEnv_def quiet_fields)
  from run_all_stored [OF nf, of w] q have er: "errors (fst (runPipeline noReadEnv w)) = []"
    by blast
  from run have ids: "map fst (db (snd (runPipeline noReadEnv w))) = map fst (db w) @ [freshId (db w)]"
    and urls: "map (apply_url \<circ> snd) (db (snd (runPipeline noReadEnv w))) =
     map (apply_url \<circ> snd) (db w) @ [applyUrl juniorDeveloper]"
    by (simp_all add: insertRow_def item_def)
  from run [THEN conjunct1] sk st er ids urls show ?thesis by (intro conjI)
qed

text \<open>
  C6, at a store whose read of the existing rows returns an error. The program
  takes the data of that read and never looks at its error, so it goes on with no
  existing URL at all: the first run stores the posting, and the second run,
  against the same postings and the table as the first run left it, skips
  nothing, adds the posting once more and reports no error. The table then holds
  two rows with the same apply URL.
\<close>

theorem C6_unread_store_adds_again:
  "existingSelectFault noReadEnv = Some (ErrorResult ''connection refused'') \<and>
   jobsOf noReadEnv = [juniorDeveloper] \<and>
   addedCount (fst (runPipeline noReadEnv emptyWorld)) = 1 \<and>
   applyUrl juniorDeveloper \<in> storedUrls (db (snd (runPipeline noReadEnv emptyWorld))) \<and>
   skippedCount (fst (runPipeline noReadEnv (snd (runPipeline noReadEnv emptyWorld)))) = 0 \<and>
   addedCount (fst (runPipeline noReadEnv (snd (runPipeline noReadEnv emptyWorld)))) = 1 \<and>
   errors (fst (runPipeline noReadEnv (snd (runPipeline noReadEnv emptyWorld)))) = [] \<and>
   map fst (db (snd (runPipeline noReadEnv (snd (runPipeline noReadEnv emptyWorld))))) = [1, 2] \<and>
   map (apply_url \<circ> snd)
       (db (snd (runPipeline noReadEnv (snd (runPipeline noReadEnv emptyWorld))))) =
     [''https://acme.example/jobs/1'', ''https://acme.example/jobs/1'']"
proof -
  have f: "existingSelectFault noReadEnv = Some (ErrorResult ''connection refused'')"
    by (simp add: noReadEnv_def)
  have j: "jobsOf noReadEnv = [juniorDeveloper]"
    by (rule jobsOf_single)
       (simp_all add: noReadEnv_def approveEnv_def allJobs_def quiet_fields)
  define w1 where "w1 = snd (runPipeline noReadEnv emptyWorld)"
  note r1 = noRead_run [of emptyWorld, folded w1_def]
  note r2 = noRead_run [of w1]
  have a: "applyUrl juniorDeveloper = ''https://acme.example/jobs/1''"
    by (simp add: juniorDeveloper_def)
  from r1 have ids1: "map fst (db w1) = [1]"
    and urls1: "map (apply_url \<circ> snd) (db w1) = [''https://acme.example/jobs/1'']"
    by (simp_all add: emptyWorld_def freshId_def a)
  have fr: "freshId (db w1) = 2"
    unfolding freshId_def ids1 by simp
  from r2 have ids2: "map fst (db (snd (runPipeline noReadEnv w1))) = [1, 2]"
    and urls2: "map (apply_url \<circ> snd) (db (snd (runPipeline noReadEnv w1))) =
      [''https://acme.example/jobs/1'', ''https://acme.example/jobs/1'']"
    by (simp_all add: ids1 urls1 fr a)
  from f j r1 [THEN conjunct1] r1 [THEN conjunct2, THEN conjunct2, THEN conjunct1]
    r2 [THEN conjunct2, THEN conjunct1] r2 [THEN conjunct1]
    r2 [THEN conjunct2, THEN conjunct2, THEN conjunct2, THEN conjunct1] ids2 urls2
  show ?thesis unfolding w1_def by (intro conjI)
qed

section \<open>Re-verification sweep\<close>

lemma isStale_due: "isStale (now - 24 * 60 * 60 * 1000) r = dueForSweep now r"
  by (cases "last_verified_at (snd r)")
     (auto simp: isStale_def dueForSweep_def ageAt_def hours_def)

lemma sweptRow_mono:
  assumes "sweptRow env lo hi j old new" "lo' \<le> lo" "hi \<le> hi'"
  shows "sweptRow env lo' hi' j old new"
proof -
  from assms(2,3) have sub: "\<And>n. n \<in> {lo..<hi} \<Longrightarrow> n \<in> {lo'..<hi'}" by simp
  show ?thesis
  proof (cases "linkAlive env j")
    case True
    with assms(1) obtain n m where "n \<in> {lo..<hi}" "m \<in> {lo..<hi}"
      "new = old\<lparr>last_verified_at := Some (clock env n),
                 verification_notes :=
                   Some (''Re-verified at '' @ toISOString env (clock env m))\<rparr>"
      unfolding sweptRow_def by auto
    with sub have "\<exists>n \<in> {lo'..<hi'}. \<exists>m \<in> {lo'..<hi'}.
      new = old\<lparr>last_verified_at := Some (clock env n),
                 verification_notes :=
                   Some (''Re-verified at '' @ toISOString env (clock env m))\<rparr>"
      by blast
    with True show ?thesis unfolding sweptRow_def by simp
  next
    case False
    with assms(1) obtain n where "n \<in> {lo..<hi}"
      "new = old\<lparr>verification_status := BROKEN_LINK,
                 verification_notes :=
                   Some (brokenReason env j @ '' at '' @ toISOString env (clock env n))\<rparr>"
      unfolding sweptRow_def by auto
    with sub have "\<exists>n \<in> {lo'..<hi'}.
      new = old\<lparr>verification_status := BROKEN_LINK,
                 verification_notes :=
                   Some (brokenReason env j @ '' at '' @ toISOString env (clock env n))\<rparr>"
      by blast
    with False show ?thesis unfolding sweptRow_def by simp
  qed
qed

lemma reverifyOne_effect:
  assumes "reverifyOne env j (w, k) = (w', k')"
  shows "\<exists>f. db w' = map (\<lambda>(i, r). if i = fst j then (i, f r) else (i, r)) (db w) \<and>
     (\<forall>old. sweptRow env (ticks w) (ticks w') j old (f old)) \<and>
     ticks w < ticks w' \<and>
     k' = k + (if linkAlive env j then 0 else 1)"
proof (cases "fetch env HEAD (apply_url (snd j))")
  case FetchThrew
  define f where "f = markBroken (''Link unreachable at '' @ toISOString env (clock env (ticks w)))"
  from assms FetchThrew have w': "w' = dbUpdate (fst j) f (w\<lparr>ticks := Suc (ticks w)\<rparr>)"
    and k': "k' = k + 1"
    by (simp_all add: reverifyOne_def readClock_def f_def)
  have d: "db w' = map (\<lambda>(i, r). if i = fst j then (i, f r) else (i, r)) (db w)"
    and t: "ticks w' = Suc (ticks w)"
    by (simp_all add: w' dbUpdate_def)
  have a: "\<not> linkAlive env j" by (simp add: linkAlive_def FetchThrew)
  have s: "\<forall>old. sweptRow env (ticks w) (ticks w') j old (f old)"
    unfolding sweptRow_def t using a
    by (auto simp: f_def markBroken_def brokenReason_def FetchThrew)
  from d s t k' a show ?thesis by (intro exI [of _ f]) simp
next
  case (Response code)
  show ?thesis
  proof (cases "200 \<le> code \<and> code < 400")
    case True
    define f where "f = markFresh (clock env (ticks w))
        (''Re-verified at '' @ toISOString env (clock env (Suc (ticks w))))"
    from assms Response True
    have w': "w' = dbUpdate (fst j) f (w\<lparr>ticks := Suc (Suc (ticks w))\<rparr>)" and k': "k' = k"
      by (simp_all add: reverifyOne_def readClock_def f_def)
    have d: "db w' = map (\<lambda>(i, r). if i = fst j then (i, f r) else (i, r)) (db w)"
      and t: "ticks w' = Suc (Suc (ticks w))"
      by (simp_all add: w' dbUpdate_def)
    have a: "linkAlive env j" using True by (simp add: linkAlive_def Response)
    have s: "\<forall>old. sweptRow env (ticks w) (ticks w') j old (f old)"
    proof
      fix old
      have e1: "ticks w \<in> {ticks w..<ticks w'}"
        and e2: "Suc (ticks w) \<in> {ticks w..<ticks w'}"
        by (simp_all add: t)
      have e3: "f old = old\<lparr>last_verified_at := Some (clock env (ticks w)),
                 verification_notes :=
                   Some (''Re-verified at '' @ toISOString env (clock env (Suc (ticks w))))\<rparr>"
        by (simp add: f_def markFresh_def)
      have "\<exists>n \<in> {ticks w..<ticks w'}. \<exists>m \<in> {ticks w..<ticks w'}.
          f old = old\<lparr>last_verified_at := Some (clock env n),
                 verification_notes :=
                   Some (''Re-verified at '' @ toISOString env (clock env m))\<rparr>"
        by (rule bexI [OF _ e1], rule bexI [OF _ e2], rule e3)
      with a show "sweptRow env (ticks w) (ticks w') j old (f old)"
        by (simp add: sweptRow_def)
    qed
    from d s t k' a show ?thesis by (intro exI [of _ f]) simp
  next
    case False
    define f where "f = markBroken (''Link broken (HTTP '' @ showNat code @ '') at ''
        @ toISOString env (clock env (ticks w)))"
    from assms Response False
    have w': "w' = dbUpdate (fst j) f (w\<lparr>ticks := Suc (ticks w)\<rparr>)" and k': "k' = k + 1"
      by (simp_all add: reverifyOne_def readClock_def f_def)
    have d: "db w' = map (\<lambda>(i, r). if i = fst j then (i, f r) else (i, r)) (db w)"
      and t: "ticks w' = Suc (ticks w)"
      by (simp_all add: w' dbUpdate_def)
    have a: "\<not> linkAlive env j" using False by (simp add: linkAlive_def Response)
    have s: "\<forall>old. sweptRow env (ticks w) (ticks w') j old (f old)"
      unfolding sweptRow_def t using a
      by (auto simp: f_def markBroken_def brokenReason_def Response)
    from d s t k' a show ?thesis by (intro exI [of _ f]) simp
  qed
qed

lemma sweep_loop:
  assumes "fold (reverifyOne env) js (w, k) = (w', k')" "distinct (map fst js)"
  shows "k' = k + int (length (filter (\<lambda>j. \<not> linkAlive env j) js)) \<and>
     ticks w \<le> ticks w' \<and>
     map fst (db w') = map fst (db w) \<and>
     (\<forall>r \<in> set (db w). fst r \<notin> fst ` set js \<longrightarrow> r \<in> set (db w')) \<and>
     (\<forall>j \<in> set js. \<forall>old. (fst j, old) \<in> set (db w) \<longrightarrow>
        (\<exists>new. (fst j, new) \<in> set (db w') \<and> sweptRow env (ticks w) (ticks w') j old new))"
  using assms
proof (induction js arbitrary: w k)
  case Nil
  then show ?case by simp
next
  case (Cons j js)
  obtain w1 k1 where one: "reverifyOne env j (w, k) = (w1, k1)"
    by (cases "reverifyOne env j (w, k)") auto
  with Cons.prems(1) have rest: "fold (reverifyOne env) js (w1, k1) = (w', k')" by simp
  from Cons.prems(2) have dj: "distinct (map fst js)" and nj: "fst j \<notin> fst ` set js"
    by simp_all
  from reverifyOne_effect [OF one] obtain f where
    d1: "db w1 = map (\<lambda>(i, r). if i = fst j then (i, f r) else (i, r)) (db w)" and
    s1: "\<forall>old. sweptRow env (ticks w) (ticks w1) j old (f old)" and
    t1: "ticks w < ticks w1" and
    k1: "k1 = k + (if linkAlive env j then 0 else 1)"
    by blast
  from Cons.IH [OF rest dj] have
    i1: "k' = k1 + int (length (filter (\<lambda>j. \<not> linkAlive env j) js))" and
    i2: "ticks w1 \<le> ticks w'" and
    i3: "map fst (db w') = map fst (db w1)" and
    i4: "\<forall>r \<in> set (db w1). fst r \<notin> fst ` set js \<longrightarrow> r \<in> set (db w')" and
    i5: "\<forall>j \<in> set js. \<forall>old. (fst j, old) \<in> set (db w1) \<longrightarrow>
        (\<exists>new. (fst j, new) \<in> set (db w') \<and> sweptRow env (ticks w1) (ticks w') j old new)"
    by blast+
  have same: "\<And>i r. i \<noteq> fst j \<Longrightarrow> (i, r) \<in> set (db w) \<Longrightarrow> (i, r) \<in> set (db w1)"
    unfolding d1 by force
  have upd: "\<And>old. (fst j, old) \<in> set (db w) \<Longrightarrow> (fst j, f old) \<in> set (db w1)"
    unfolding d1 by force
  have c1: "k' = k + int (length (filter (\<lambda>j. \<not> linkAlive env j) (j # js)))"
    using i1 k1 by simp
  have c2: "ticks w \<le> ticks w'" using t1 i2 by simp
  have c3: "map fst (db w') = map fst (db w)"
    unfolding i3 d1 by (simp add: case_prod_beta comp_def)
  have c4: "\<forall>r \<in> set (db w). fst r \<notin> fst ` set (j # js) \<longrightarrow> r \<in> set (db w')"
  proof (intro ballI impI)
    fix r assume r: "r \<in> set (db w)" and n: "fst r \<notin> fst ` set (j # js)"
    then have "fst r \<noteq> fst j" "fst r \<notin> fst ` set js" by auto
    with r same [of "fst r" "snd r"] have "r \<in> set (db w1)" by simp
    with i4 \<open>fst r \<notin> fst ` set js\<close> show "r \<in> set (db w')" by blast
  qed
  have c5: "\<forall>x \<in> set (j # js). \<forall>old. (fst x, old) \<in> set (db w) \<longrightarrow>
        (\<exists>new. (fst x, new) \<in> set (db w') \<and> sweptRow env (ticks w) (ticks w') x old new)"
  proof (intro ballI allI impI)
    fix x old assume x: "x \<in> set (j # js)" and o: "(fst x, old) \<in> set (db w)"
    show "\<exists>new. (fst x, new) \<in> set (db w') \<and> sweptRow env (ticks w) (ticks w') x old new"
    proof (cases "x = j")
      case True
      from o True have "(fst j, f old) \<in> set (db w1)" using upd by simp
      with i4 nj have m: "(fst j, f old) \<in> set (db w')" by force
      from s1 have "sweptRow env (ticks w) (ticks w1) j old (f old)" by blast
      then have "sweptRow env (ticks w) (ticks w') j old (f old)"
        by (rule sweptRow_mono) (simp_all add: i2)
      with m True show ?thesis by blast
    next
      case False
      with x have xs: "x \<in> set js" by simp
      with nj have ne: "fst x \<noteq> fst j" by (metis imageI)
      have "(fst x, old) \<in> set (db w1)" by (rule same [OF ne o])
      with i5 xs obtain new where m: "(fst x, new) \<in> set (db w')"
        and s: "sweptRow env (ticks w1) (ticks w') x old new"
        by blast
      from t1 have "ticks w \<le> ticks w1" by simp
      with s have "sweptRow env (ticks w) (ticks w') x old new"
        by (rule sweptRow_mono) simp
      with m show ?thesis by blast
    qed
  qed
  from c1 c2 c3 c4 c5 show ?case by (intro conjI)
qed


lemma sweptRow_fields:
  assumes "sweptRow env lo hi j old new"
  shows "case fetch env HEAD (apply_url (snd j)) of
       Response code \<Rightarrow>
         if 200 \<le> code \<and> code < 400
         then verification_status new = verification_status old \<and>
              (\<exists>n. lo \<le> n \<and> n < hi \<and> last_verified_at new = Some (clock env n)) \<and>
              (\<exists>m. lo \<le> m \<and> m < hi \<and>
                 verification_notes new =
                   Some (''Re-verified at '' @ toISOString env (clock env m)))
         else verification_status new = BROKEN_LINK \<and>
              last_verified_at new = last_verified_at old \<and>
              (\<exists>n. lo \<le> n \<and> n < hi \<and>
                 verification_notes new =
                   Some (''Link broken (HTTP '' @ showNat code @ '') at ''
                         @ toISOString env (clock env n)))
     | FetchThrew \<Rightarrow>
         verification_status new = BROKEN_LINK \<and>
         last_verified_at new = last_verified_at old \<and>
         (\<exists>n. lo \<le> n \<and> n < hi \<and>
            verification_notes new =
              Some (''Link unreachable at '' @ toISOString env (clock env n)))"
proof (cases "fetch env HEAD (apply_url (snd j))")
  case FetchThrew
  then have "\<not> linkAlive env j" by (simp add: linkAlive_def)
  with assms obtain n where "n \<in> {lo..<hi}"
    "new = old\<lparr>verification_status := BROKEN_LINK,
               verification_notes :=
                 Some (brokenReason env j @ '' at '' @ toISOString env (clock env n))\<rparr>"
    unfolding sweptRow_def by auto
  then have "verification_status new = BROKEN_LINK \<and>
         last_verified_at new = last_verified_at old \<and>
         (lo \<le> n \<and> n < hi \<and>
            verification_notes new =
              Some (''Link unreachable at '' @ toISOString env (clock env n)))"
    by (simp add: brokenReason_def FetchThrew)
  then show ?thesis unfolding FetchThrew by auto
next
  case (Response code)
  show ?thesis
  proof (cases "200 \<le> code \<and> code < 400")
    case True
    then have "linkAlive env j" by (simp add: linkAlive_def Response)
    with assms obtain n m where "n \<in> {lo..<hi}" "m \<in> {lo..<hi}"
      "new = old\<lparr>last_verified_at := Some (clock env n),
                 verification_notes :=
                   Some (''Re-verified at '' @ toISOString env (clock env m))\<rparr>"
      unfolding sweptRow_def by auto
    then have "verification_status new = verification_status old \<and>
              (lo \<le> n \<and> n < hi \<and> last_verified_at new = Some (clock env n)) \<and>
              (lo \<le> m \<and> m < hi \<and>
                 verification_notes new =
                   Some (''Re-verified at '' @ toISOString env (clock env m)))"
      by simp
    then have "verification_status new = verification_status old \<and>
              (\<exists>n. lo \<le> n \<and> n < hi \<and> last_verified_at new = Some (clock env n)) \<and>
              (\<exists>m. lo \<le> m \<and> m < hi \<and>
                 verification_notes new =
                   Some (''Re-verified at '' @ toISOString env (clock env m)))"
      by blast
    with True show ?thesis unfolding Response by auto
  next
    case False
    then have "\<not> linkAlive env j" by (simp add: linkAlive_def Response)
    with assms obtain n where "n \<in> {lo..<hi}"
      "new = old\<lparr>verification_status := BROKEN_LINK,
                 verification_notes :=
                   Some (brokenReason env j @ '' at '' @ toISOString env (clock env n))\<rparr>"
      unfolding sweptRow_def by auto
    then have "verification_status new = BROKEN_LINK \<and>
              last_verified_at new = last_verified_at old \<and>
              (lo \<le> n \<and> n < hi \<and>
                 verification_notes new =
                   Some (''Link broken (HTTP '' @ showNat code @ '') at ''
                         @ toISOString env (clock env n)))"
      by (simp add: brokenReason_def Response)
    then have "verification_status new = BROKEN_LINK \<and>
              last_verified_at new = last_verified_at old \<and>
              (\<exists>n. lo \<le> n \<and> n < hi \<and>
                 verification_notes new =
                   Some (''Link broken (HTTP '' @ showNat code @ '') at ''
                         @ toISOString env (clock env n)))"
      by blast
    with False show ?thesis unfolding Response by auto
  qed
qed

lemma reverify_unfold:
  assumes "staleSelectFault env = None"
  shows "reverifyExistingJobs env w =
     (Inr \<lparr>checked = int (length (filter (dueForSweep (clock env (ticks w))) (db w))),
           expired = snd (fold (reverifyOne env)
                       (filter (dueForSweep (clock env (ticks w))) (db w))
                       (w\<lparr>ticks := Suc (ticks w)\<rparr>, 0)),
           fetchErrors = []\<rparr>,
      fst (fold (reverifyOne env) (filter (dueForSweep (clock env (ticks w))) (db w))
             (w\<lparr>ticks := Suc (ticks w)\<rparr>, 0)))"
proof -
  define due where "due = filter (dueForSweep (clock env (ticks w))) (db w)"
  have sel: "dbSelect (staleSelectFault env)
      (isStale (clock env (ticks w) - 86400000)) (w\<lparr>ticks := Suc (ticks w)\<rparr>) =
      Inr due"
  proof -
    have "isStale (clock env (ticks w) - 86400000) = dueForSweep (clock env (ticks w))"
      by (rule ext) (simp add: isStale_due [symmetric])
    with assms(1) show ?thesis by (simp add: dbSelect_def due_def)
  qed
  have "reverifyExistingJobs env w =
     (Inr \<lparr>checked = int (length due),
           expired = snd (fold (reverifyOne env) due (w\<lparr>ticks := Suc (ticks w)\<rparr>, 0)),
           fetchErrors = []\<rparr>,
      fst (fold (reverifyOne env) due (w\<lparr>ticks := Suc (ticks w)\<rparr>, 0)))"
  proof (cases "due = []")
    case True
    then show ?thesis
      by (simp add: reverifyExistingJobs_def readClock_def sel)
  next
    case False
    then show ?thesis
      by (simp add: reverifyExistingJobs_def readClock_def sel case_prod_beta)
  qed
  then show ?thesis unfolding due_def .
qed

lemma sweep_when_read_succeeds:
  assumes "staleSelectFault env = None" and "distinct (map fst (db w))"
  shows "(\<exists>res. fst (reverifyExistingJobs env w) = Inr res \<and>
       checked res = int (length (filter (dueForSweep (clock env (ticks w))) (db w))) \<and>
       expired res =
         int (length (filter (\<lambda>r. dueForSweep (clock env (ticks w)) r \<and> \<not> linkAlive env r)
                        (db w))) \<and>
       fetchErrors res = []) \<and>
     map fst (db (snd (reverifyExistingJobs env w))) = map fst (db w) \<and>
     (\<forall>r \<in> set (db w). \<not> dueForSweep (clock env (ticks w)) r \<longrightarrow>
         r \<in> set (db (snd (reverifyExistingJobs env w)))) \<and>
     (\<forall>r \<in> set (db w). dueForSweep (clock env (ticks w)) r \<longrightarrow>
         (\<exists>new. (fst r, new) \<in> set (db (snd (reverifyExistingJobs env w))) \<and>
            sweptRow env (ticks w) (ticks (snd (reverifyExistingJobs env w))) r (snd r) new)) \<and>
     (\<forall>lo hi j old new. sweptRow env lo hi j old new \<longrightarrow>
        (case fetch env HEAD (apply_url (snd j)) of
           Response code \<Rightarrow>
             if 200 \<le> code \<and> code < 400
             then verification_status new = verification_status old \<and>
                  (\<exists>n. lo \<le> n \<and> n < hi \<and> last_verified_at new = Some (clock env n)) \<and>
                  (\<exists>m. lo \<le> m \<and> m < hi \<and>
                     verification_notes new =
                       Some (''Re-verified at '' @ toISOString env (clock env m)))
             else verification_status new = BROKEN_LINK \<and>
                  last_verified_at new = last_verified_at old \<and>
                  (\<exists>n. lo \<le> n \<and> n < hi \<and>
                     verification_notes new =
                       Some (''Link broken (HTTP '' @ showNat code @ '') at ''
                             @ toISOString env (clock env n)))
         | FetchThrew \<Rightarrow>
             verification_status new = BROKEN_LINK \<and>
             last_verified_at new = last_verified_at old \<and>
             (\<exists>n. lo \<le> n \<and> n < hi \<and>
                verification_notes new =
                  Some (''Link unreachable at '' @ toISOString env (clock env n)))))"
proof -
  define now where "now = clock env (ticks w)"
  define due where "due = filter (dueForSweep now) (db w)"
  define w1 where "w1 = w\<lparr>ticks := Suc (ticks w)\<rparr>"
  obtain w' k where lp: "fold (reverifyOne env) due (w1, 0) = (w', k)"
    by (cases "fold (reverifyOne env) due (w1, 0)") auto
  have run: "reverifyExistingJobs env w =
      (Inr \<lparr>checked = int (length due), expired = k, fetchErrors = []\<rparr>, w')"
    using reverify_unfold [OF assms(1), of w] lp
    by (simp add: due_def now_def w1_def)
  have dd: "distinct (map fst due)"
    unfolding due_def using assms(2) by (rule distinct_map_filter)
  from sweep_loop [OF lp dd] have
    l1: "k = int (length (filter (\<lambda>j. \<not> linkAlive env j) due))" and
    l2: "ticks w1 \<le> ticks w'" and
    l3: "map fst (db w') = map fst (db w1)" and
    l4: "\<forall>r \<in> set (db w1). fst r \<notin> fst ` set due \<longrightarrow> r \<in> set (db w')" and
    l5: "\<forall>j \<in> set due. \<forall>old. (fst j, old) \<in> set (db w1) \<longrightarrow>
        (\<exists>new. (fst j, new) \<in> set (db w') \<and> sweptRow env (ticks w1) (ticks w') j old new)"
    by simp_all
  have dbw1: "db w1 = db w" and tw1: "ticks w1 = Suc (ticks w)" by (simp_all add: w1_def)
  have a: "\<exists>res. fst (reverifyExistingJobs env w) = Inr res \<and>
       checked res = int (length (filter (dueForSweep now) (db w))) \<and>
       expired res =
         int (length (filter (\<lambda>r. dueForSweep now r \<and> \<not> linkAlive env r) (db w))) \<and>
       fetchErrors res = []"
  proof -
    have "filter (\<lambda>j. \<not> linkAlive env j) due =
        filter (\<lambda>r. dueForSweep now r \<and> \<not> linkAlive env r) (db w)"
      by (simp add: due_def conj_commute)
    with l1 show ?thesis by (simp add: run due_def)
  qed
  have b: "map fst (db (snd (reverifyExistingJobs env w))) = map fst (db w)"
    by (simp add: run l3 dbw1)
  have c: "\<forall>r \<in> set (db w). \<not> dueForSweep now r \<longrightarrow>
         r \<in> set (db (snd (reverifyExistingJobs env w)))"
  proof (intro ballI impI)
    fix r assume r: "r \<in> set (db w)" and nd: "\<not> dueForSweep now r"
    have "fst r \<notin> fst ` set due"
    proof
      assume "fst r \<in> fst ` set due"
      then obtain d where d: "d \<in> set due" "fst r = fst d" by auto
      then have dm: "d \<in> set (db w)" and dq: "dueForSweep now d" by (simp_all add: due_def)
      from r have "(fst r, snd r) \<in> set (db w)" by simp
      moreover from dm d(2) have "(fst r, snd d) \<in> set (db w)" by simp
      ultimately have "snd r = snd d" using assms(2) by (rule eq_key_imp_eq_value [rotated])
      with d(2) have "r = d" by (simp add: prod_eq_iff)
      with dq nd show False by simp
    qed
    with l4 r show "r \<in> set (db (snd (reverifyExistingJobs env w)))"
      by (simp add: run dbw1)
  qed
  have d: "\<forall>r \<in> set (db w). dueForSweep now r \<longrightarrow>
         (\<exists>new. (fst r, new) \<in> set (db (snd (reverifyExistingJobs env w))) \<and>
            sweptRow env (ticks w) (ticks (snd (reverifyExistingJobs env w))) r (snd r) new)"
  proof (intro ballI impI)
    fix r assume r: "r \<in> set (db w)" and q: "dueForSweep now r"
    then have "r \<in> set due" by (simp add: due_def)
    moreover from r have "(fst r, snd r) \<in> set (db w1)" by (simp add: dbw1)
    ultimately obtain new where m: "(fst r, new) \<in> set (db w')"
      and s: "sweptRow env (ticks w1) (ticks w') r (snd r) new"
      using l5 by blast
    from s have "sweptRow env (ticks w) (ticks w') r (snd r) new"
      by (rule sweptRow_mono) (simp_all add: tw1)
    with m show "\<exists>new. (fst r, new) \<in> set (db (snd (reverifyExistingJobs env w))) \<and>
            sweptRow env (ticks w) (ticks (snd (reverifyExistingJobs env w))) r (snd r) new"
      by (auto simp: run)
  qed
  note e = sweptRow_fields [of env]
  from a b c d show ?thesis
    unfolding now_def using e by (intro conjI allI impI)
qed


lemma sweep_when_read_fails:
  "(\<forall>e. staleSelectFault env = Some (ErrorResult e) \<longrightarrow>
      reverifyExistingJobs env w =
        (Inr \<lparr>checked = 0, expired = 0, fetchErrors = [''Fetch error: '' @ e]\<rparr>,
         w\<lparr>ticks := Suc (ticks w)\<rparr>)) \<and>
   (\<forall>e. staleSelectFault env = Some (Threw e) \<longrightarrow>
      reverifyExistingJobs env w = (Inl e, w\<lparr>ticks := Suc (ticks w)\<rparr>))"
  by (simp add: reverifyExistingJobs_def readClock_def dbSelect_def)

text \<open>
  C9. The sweep reads the records with status \<open>VERIFIED\<close> whose last-verified
  timestamp is more than 24 hours old, and issues one HEAD request to the apply
  URL of each. A status from 200 to 399 writes a new timestamp and a note and
  leaves the status; any other status, and a request that throws (timeout,
  network error), writes status \<open>BROKEN_LINK\<close> with a note that gives the reason
  (with the HTTP status when there is one) and adds one to the expired counter.
  Records that are not due stay as they are. The result holds the number of
  records checked, the number expired and an empty list of errors. When the read
  of the stale records returns an error, the result holds zero, zero and that
  error, and no record changes; when the read throws, so does the sweep. The
  keys of the table are distinct, as a primary key is.
\<close>

theorem C9_sweep_of_stale_records:
  assumes "distinct (map fst (db w))"
  shows "(staleSelectFault env = None \<longrightarrow>
     (\<exists>res. fst (reverifyExistingJobs env w) = Inr res \<and>
       checked res = int (length (filter (dueForSweep (clock env (ticks w))) (db w))) \<and>
       expired res =
         int (length (filter (\<lambda>r. dueForSweep (clock env (ticks w)) r \<and> \<not> linkAlive env r)
                        (db w))) \<and>
       fetchErrors res = []) \<and>
     map fst (db (snd (reverifyExistingJobs env w))) = map fst (db w) \<and>
     (\<forall>r \<in> set (db w). \<not> dueForSweep (clock env (ticks w)) r \<longrightarrow>
         r \<in> set (db (snd (reverifyExistingJobs env w)))) \<and>
     (\<forall>r \<in> set (db w). dueForSweep (clock env (ticks w)) r \<longrightarrow>
         (\<exists>new. (fst r, new) \<in> set (db (snd (reverifyExistingJobs env w))) \<and>
            sweptRow env (ticks w) (ticks (snd (reverifyExistingJobs env w))) r (snd r) new))) \<and>
   (\<forall>e. staleSelectFault env = Some (ErrorResult e) \<longrightarrow>
      fst (reverifyExistingJobs env w) =
        Inr \<lparr>checked = 0, expired = 0, fetchErrors = [''Fetch error: '' @ e]\<rparr> \<and>
      db (snd (reverifyExistingJobs env w)) = db w) \<and>
   (\<forall>e. staleSelectFault env = Some (Threw e) \<longrightarrow>
      fst (reverifyExistingJobs env w) = Inl e \<and>
      db (snd (reverifyExistingJobs env w)) = db w) \<and>
   (\<forall>r. dueForSweep (clock env (ticks w)) r =
      (verification_status (snd r) = VERIFIED \<and>
       (\<exists>age. ageAt (clock env (ticks w)) r = Some age \<and> age > hours 24))) \<and>
   (\<forall>lo hi j old new. sweptRow env lo hi j old new \<longrightarrow>
        (case fetch env HEAD (apply_url (snd j)) of
           Response code \<Rightarrow>
             if 200 \<le> code \<and> code < 400
             then verification_status new = verification_status old \<and>
                  (\<exists>n. lo \<le> n \<and> n < hi \<and> last_verified_at new = Some (clock env n)) \<and>
                  (\<exists>m. lo \<le> m \<and> m < hi \<and>
                     verification_notes new =
                       Some (''Re-verified at '' @ toISOString env (clock env m)))
             else verification_status new = BROKEN_LINK \<and>
                  last_verified_at new = last_verified_at old \<and>
                  (\<exists>n. lo \<le> n \<and> n < hi \<and>
                     verification_notes new =
                       Some (''Link broken (HTTP '' @ showNat code @ '') at ''
                             @ toISOString env (clock env n)))
         | FetchThrew \<Rightarrow>
             verification_status new = BROKEN_LINK \<and>
             last_verified_at new = last_verified_at old \<and>
             (\<exists>n. lo \<le> n \<and> n < hi \<and>
                verification_notes new =
                  Some (''Link unreachable at '' @ toISOString env (clock env n)))))"
proof -
  have 1: "staleSelectFault env = None \<longrightarrow>
     (\<exists>res. fst (reverifyExistingJobs env w) = Inr res \<and>
       checked res = int (length (filter (dueForSweep (clock env (ticks w))) (db w))) \<and>
       expired res =
         int (length (filter (\<lambda>r. dueForSweep (clock env (ticks w)) r \<and> \<not> linkAlive env r)
                        (db w))) \<and>
       fetchErrors res = []) \<and>
     map fst (db (snd (reverifyExistingJobs env w))) = map fst (db w) \<and>
     (\<forall>r \<in> set (db w). \<not> dueForSweep (clock env (ticks w)) r \<longrightarrow>
         r \<in> set (db (snd (reverifyExistingJobs env w)))) \<and>
     (\<forall>r \<in> set (db w). dueForSweep (clock env (ticks w)) r \<longrightarrow>
         (\<exists>new. (fst r, new) \<in> set (db (snd (reverifyExistingJobs env w))) \<and>
            sweptRow env (ticks w) (ticks (snd (reverifyExistingJobs env w))) r (snd r) new))"
  proof
    assume f: "staleSelectFault env = None"
    note t = sweep_when_read_succeeds [OF f assms]
    from t [THEN conjunct1] t [THEN conjunct2, THEN conjunct1]
      t [THEN conjunct2, THEN conjunct2, THEN conjunct1]
      t [THEN conjunct2, THEN conjunct2, THEN conjunct2, THEN conjunct1]
    show "(\<exists>res. fst (reverifyExistingJobs env w) = Inr res \<and>
       checked res = int (length (filter (dueForSweep (clock env (ticks w))) (db w))) \<and>
       expired res =
         int (length (filter (\<lambda>r. dueForSweep (clock env (ticks w)) r \<and> \<not> linkAlive env r)
                        (db w))) \<and>
       fetchErrors res = []) \<and>
     map fst (db (snd (reverifyExistingJobs env w))) = map fst (db w) \<and>
     (\<forall>r \<in> set (db w). \<not> dueForSweep (clock env (ticks w)) r \<longrightarrow>
         r \<in> set (db (snd (reverifyExistingJobs env w)))) \<and>
     (\<forall>r \<in> set (db w). dueForSweep (clock env (ticks w)) r \<longrightarrow>
         (\<exists>new. (fst r, new) \<in> set (db (snd (reverifyExistingJobs env w))) \<and>
            sweptRow env (ticks w) (ticks (snd (reverifyExistingJobs env w))) r (snd r) new))"
      by (intro conjI)
  qed
  have 2: "\<forall>e. staleSelectFault env = Some (ErrorResult e) \<longrightarrow>
      fst (reverifyExistingJobs env w) =
        Inr \<lparr>checked = 0, expired = 0, fetchErrors = [''Fetch error: '' @ e]\<rparr> \<and>
      db (snd (reverifyExistingJobs env w)) = db w"
    using sweep_when_read_fails [of env w] by simp
  have 3: "\<forall>e. staleSelectFault env = Some (Threw e) \<longrightarrow>
      fst (reverifyExistingJobs env w) = Inl e \<and>
      db (snd (reverifyExistingJobs env w)) = db w"
    using sweep_when_read_fails [of env w] by simp
  have 4: "\<forall>r. dueForSweep (clock env (ticks w)) r =
      (verification_status (snd r) = VERIFIED \<and>
       (\<exists>age. ageAt (clock env (ticks w)) r = Some age \<and> age > hours 24))"
    by (auto simp: dueForSweep_def split: option.splits)
  have 5: "\<forall>lo hi j old new. sweptRow env lo hi j old new \<longrightarrow>
        (case fetch env HEAD (apply_url (snd j)) of
           Response code \<Rightarrow>
             if 200 \<le> code \<and> code < 400
             then verification_status new = verification_status old \<and>
                  (\<exists>n. lo \<le> n \<and> n < hi \<and> last_verified_at new = Some (clock env n)) \<and>
                  (\<exists>m. lo \<le> m \<and> m < hi \<and>
                     verification_notes new =
                       Some (''Re-verified at '' @ toISOString env (clock env m)))
             else verification_status new = BROKEN_LINK \<and>
                  last_verified_at new = last_verified_at old \<and>
                  (\<exists>n. lo \<le> n \<and> n < hi \<and>
                     verification_notes new =
                       Some (''Link broken (HTTP '' @ showNat code @ '') at ''
                             @ toISOString env (clock env n)))
         | FetchThrew \<Rightarrow>
             verification_status new = BROKEN_LINK \<and>
             last_verified_at new = last_verified_at old \<and>
             (\<exists>n. lo \<le> n \<and> n < hi \<and>
                verification_notes new =
                  Some (''Link unreachable at '' @ toISOString env (clock env n))))"
    by (intro allI impI) (rule sweptRow_fields)
  show ?thesis by (rule conjI [OF 1 conjI [OF 2 conjI [OF 3 conjI [OF 4 5]]]])
qed


theorem C9_sweep_of_stale_records_witness:
  "staleSelectFault sweepEnv = None \<and> distinct (map fst (db staleWorld)) \<and>
   verification_status (snd boundaryRecord) = VERIFIED \<and>
   ageAt (clock sweepEnv (ticks staleWorld)) boundaryRecord = Some (hours 30) \<and>
   fetch sweepEnv HEAD (apply_url (snd boundaryRecord)) = Response 404 \<and>
   (\<exists>res. fst (reverifyExistingJobs sweepEnv staleWorld) = Inr res \<and>
      checked res = 1 \<and> expired res = 1 \<and> fetchErrors res = []) \<and>
   (\<exists>new n. (fst boundaryRecord, new) \<in> set (db (snd (reverifyExistingJobs sweepEnv staleWorld))) \<and>
      verification_status new = BROKEN_LINK \<and>
      verification_notes new =
        Some (''Link broken (HTTP 404) at '' @ toISOString sweepEnv (clock sweepEnv n)))"
proof -
  have f: "staleSelectFault sweepEnv = None"
    by (simp add: sweepEnv_def quiet_fields)
  have d: "distinct (map fst (db staleWorld))"
    by (simp add: staleWorld_def)
  have v: "verification_status (snd boundaryRecord) = VERIFIED"
    by (simp add: boundaryRecord_def)
  have c0: "clock sweepEnv (ticks staleWorld) = 135200000"
    by (simp add: sweepEnv_def staleWorld_def)
  have a: "ageAt (clock sweepEnv (ticks staleWorld)) boundaryRecord = Some (hours 30)"
    by (simp add: c0 ageAt_def boundaryRecord_def hours_def)
  have h: "fetch sweepEnv HEAD (apply_url (snd boundaryRecord)) = Response 404"
    by (simp add: sweepEnv_def)
  have due: "dueForSweep (clock sweepEnv (ticks staleWorld)) boundaryRecord"
    by (simp add: dueForSweep_def a v) (simp add: hours_def)
  have dead: "\<not> linkAlive sweepEnv boundaryRecord"
    by (simp add: linkAlive_def h)
  have s404: "showNat 404 = ''404''"
    by (simp add: showNat.simps digitChar_def char_of_eq_iff)
  note c9 = C9_sweep_of_stale_records [OF d, of sweepEnv]
  note t = c9 [THEN conjunct1, THEN mp, OF f]
  from t [THEN conjunct1] due dead
  have r: "\<exists>res. fst (reverifyExistingJobs sweepEnv staleWorld) = Inr res \<and>
      checked res = 1 \<and> expired res = 1 \<and> fetchErrors res = []"
    by (simp add: staleWorld_def)
  have m: "boundaryRecord \<in> set (db staleWorld)" by (simp add: staleWorld_def)
  from t [THEN conjunct2, THEN conjunct2, THEN conjunct2] m due
  obtain new where n1: "(fst boundaryRecord, new) \<in> set (db (snd (reverifyExistingJobs sweepEnv staleWorld)))"
    and n2: "sweptRow sweepEnv (ticks staleWorld)
               (ticks (snd (reverifyExistingJobs sweepEnv staleWorld))) boundaryRecord
               (snd boundaryRecord) new"
    by blast
  from c9 [THEN conjunct2, THEN conjunct2, THEN conjunct2, THEN conjunct2] n2
  have "case fetch sweepEnv HEAD (apply_url (snd boundaryRecord)) of
           Response code \<Rightarrow>
             if 200 \<le> code \<and> code < 400
             then verification_status new = verification_status (snd boundaryRecord) \<and>
                  (\<exists>n. ticks staleWorld \<le> n \<and>
                       n < ticks (snd (reverifyExistingJobs sweepEnv staleWorld)) \<and>
                       last_verified_at new = Some (clock sweepEnv n)) \<and>
                  (\<exists>m. ticks staleWorld \<le> m \<and>
                       m < ticks (snd (reverifyExistingJobs sweepEnv staleWorld)) \<and>
                     verification_notes new =
                       Some (''Re-verified at '' @ toISOString sweepEnv (clock sweepEnv m)))
             else verification_status new = BROKEN_LINK \<and>
                  last_verified_at new = last_verified_at (snd boundaryRecord) \<and>
                  (\<exists>n. ticks staleWorld \<le> n \<and>
                       n < ticks (snd (reverifyExistingJobs sweepEnv staleWorld)) \<and>
                     verification_notes new =
                       Some (''Link broken (HTTP '' @ showNat code @ '') at ''
                             @ toISOString sweepEnv (clock sweepEnv n)))
         | FetchThrew \<Rightarrow>
             verification_status new = BROKEN_LINK \<and>
             last_verified_at new = last_verified_at (snd boundaryRecord) \<and>
             (\<exists>n. ticks staleWorld \<le> n \<and>
                  n < ticks (snd (reverifyExistingJobs sweepEnv staleWorld)) \<and>
                verification_notes new =
                  Some (''Link unreachable at '' @ toISOString sweepEnv (clock sweepEnv n)))"
    by blast
  then obtain n where "verification_status new = BROKEN_LINK"
    "verification_notes new =
        Some (''Link broken (HTTP 404) at '' @ toISOString sweepEnv (clock sweepEnv n))"
    unfolding h by (auto simp: s404)
  with n1 have e: "\<exists>new n. (fst boundaryRecord, new)
        \<in> set (db (snd (reverifyExistingJobs sweepEnv staleWorld))) \<and>
      verification_status new = BROKEN_LINK \<and>
      verification_notes new =
        Some (''Link broken (HTTP 404) at '' @ toISOString sweepEnv (clock sweepEnv n))"
    by blast
  from f d v a h r e show ?thesis by (intro conjI)
qed


end
